theory Spec2Isabelle
  imports Main "HOL-Library.Char_ord" "HOL-Library.List_Lexorder" "HOL-Library.Word"
    "HOL-Library.Multiset"
begin

chapter \<open>The client of The Companies API: query strings and requests\<close>

text \<open>
  A model of \<open>client.go\<close>: the construction of the client, \<open>BuildQueryString\<close>,
  \<open>MakeRequestWithQuery\<close> and \<open>MakeRequest\<close>, with the properties that its specification
  states of them. String functions of the standard library are modelled as they are
  documented; reflection-driven formatting, JSON coding and the network are parameters,
  and where a property speaks of JSON the parameter is tied to a model of
  \<open>encoding/json\<close>.
\<close>

section \<open>Strings: the pieces of the Go standard library that are plain string functions\<close>

text \<open>
  A Go \<open>string\<close> is a sequence of bytes and is compared bytewise, so it is a \<open>char list\<close>
  under the lexicographic order of \<open>HOL-Library.List_Lexorder\<close> over the byte order of
  \<open>HOL-Library.Char_ord\<close>.
\<close>

subsection \<open>\<open>url.QueryEscape\<close> and \<open>url.QueryUnescape\<close>\<close>

text \<open>
  \<open>net/url.shouldEscape(c, encodeQueryComponent)\<close>: letters, digits and the four marks
  \<open>- _ . ~\<close> are kept, every other byte is escaped.
\<close>

definition shouldEscape :: "char \<Rightarrow> bool" where
  "shouldEscape c =
     (if (CHR ''a'' \<le> c \<and> c \<le> CHR ''z'') \<or> (CHR ''A'' \<le> c \<and> c \<le> CHR ''Z'')
          \<or> (CHR ''0'' \<le> c \<and> c \<le> CHR ''9'') then False
      else if c = CHR ''-'' \<or> c = CHR ''_'' \<or> c = CHR ''.'' \<or> c = CHR ''~'' then False
      else True)"

definition upperhex :: string where
  "upperhex = ''0123456789ABCDEF''"

text \<open>One byte of \<open>url.QueryEscape\<close>: a space becomes \<open>+\<close>, an escaped byte \<open>%XX\<close>.\<close>

definition escapeByte :: "char \<Rightarrow> string" where
  "escapeByte c =
     (if shouldEscape c then
        (if c = CHR '' '' then ''+''
         else [CHR ''%'', upperhex ! (of_char c div 16), upperhex ! (of_char c mod 16)])
      else [c])"

definition QueryEscape :: "string \<Rightarrow> string" where
  "QueryEscape s = concat (map escapeByte s)"

definition ishex :: "char \<Rightarrow> bool" where
  "ishex c = ((CHR ''0'' \<le> c \<and> c \<le> CHR ''9'') \<or> (CHR ''a'' \<le> c \<and> c \<le> CHR ''f'')
              \<or> (CHR ''A'' \<le> c \<and> c \<le> CHR ''F''))"

definition unhex :: "char \<Rightarrow> nat" where
  "unhex c =
     (if CHR ''0'' \<le> c \<and> c \<le> CHR ''9'' then of_char c - of_char CHR ''0''
      else if CHR ''a'' \<le> c \<and> c \<le> CHR ''f'' then of_char c - of_char CHR ''a'' + 10
      else if CHR ''A'' \<le> c \<and> c \<le> CHR ''F'' then of_char c - of_char CHR ''A'' + 10
      else 0)"

text \<open>\<open>url.QueryUnescape\<close>; \<open>None\<close> is its \<open>EscapeError\<close>.\<close>

fun QueryUnescape :: "string \<Rightarrow> string option" where
  "QueryUnescape [] = Some []"
| "QueryUnescape (c # s) =
     (if c = CHR ''%'' then
        (case s of
           a # b # rest \<Rightarrow>
             (if ishex a \<and> ishex b
              then map_option ((#) (char_of (unhex a * 16 + unhex b))) (QueryUnescape rest)
              else None)
         | _ \<Rightarrow> None)
      else if c = CHR ''+'' then map_option ((#) CHR '' '') (QueryUnescape s)
      else map_option ((#) c) (QueryUnescape s))"

subsection \<open>\<open>strings.Split\<close>, \<open>strings.Join\<close>, \<open>strings.Contains\<close> with a one-byte separator\<close>

text \<open>\<open>strings.Split(s, sep)\<close> for a separator of one byte; the result is never empty.\<close>

fun Split :: "string \<Rightarrow> char \<Rightarrow> string list" where
  "Split [] sep = [[]]"
| "Split (c # s) sep =
     (if c = sep then [] # Split s sep
      else (case Split s sep of p # ps \<Rightarrow> (c # p) # ps | [] \<Rightarrow> [[c]]))"

fun Join :: "string list \<Rightarrow> string \<Rightarrow> string" where
  "Join [] sep = []"
| "Join [p] sep = p"
| "Join (p # q # ps) sep = p @ sep @ Join (q # ps) sep"

definition Contains :: "string \<Rightarrow> char \<Rightarrow> bool" where
  "Contains s c = (c \<in> set s)"

subsection \<open>\<open>fmt\<close> verbs on integers, \<open>strconv.FormatBool\<close>\<close>

function decimal :: "nat \<Rightarrow> string" where
  "decimal n = (if n < 10 then [''0123456789'' ! n]
                else decimal (n div 10) @ [''0123456789'' ! (n mod 10)])"
  by pat_completeness auto
termination
  by (relation "measure id") auto

text \<open>\<open>fmt.Sprintf("%d", n)\<close> on a signed and on an unsigned integer.\<close>

definition Sprintf_d :: "int \<Rightarrow> string" where
  "Sprintf_d i = (if i < 0 then CHR ''-'' # decimal (nat (- i)) else decimal (nat i))"

definition Sprintf_u :: "nat \<Rightarrow> string" where
  "Sprintf_u n = decimal n"

definition FormatBool :: "bool \<Rightarrow> string" where
  "FormatBool b = (if b then ''true'' else ''false'')"

section \<open>Data model\<close>

subsection \<open>Values of type \<open>interface{}\<close>\<close>

text \<open>
  The dynamic values that a \<open>map[string]interface{}\<close> entry or a request body can hold.
  Integers carry their mathematical value (every width prints the same digits), floats their
  IEEE bit pattern, non-nil pointers, channels, functions and \<open>uintptr\<close>s a machine address
  (a channel or function at address 0 is nil). \<open>GPtr a v\<close> points to a variable of the
  type of \<open>v\<close> that holds \<open>v\<close>; \<open>GNilMap\<close> and \<open>GNilSlice\<close> are the nil map and the nil
  slice, which are not the nil interface value \<open>GNil\<close>. \<open>GNamed n v\<close> is
  a value of a defined type \<open>n\<close> whose underlying value is \<open>v\<close> (such as
  \<open>time.Duration\<close> or a string enumeration): it has the kind of \<open>v\<close> but is not matched
  by a type switch on the predeclared types.
\<close>

datatype gvalue =
    GNil
  | GString string
  | GInt int
  | GUint nat
  | GFloat32 "32 word"
  | GFloat64 "64 word"
  | GBool bool
  | GStruct "(string \<times> gvalue) list"
  | GMap "(gvalue \<times> gvalue) list"
  | GNilMap
  | GSlice "gvalue list"
  | GNilSlice
  | GArray "gvalue list"
  | GPtr nat gvalue
  | GNilPtr
  | GChan nat
  | GFunc nat
  | GUintptr nat
  | GNamed string gvalue

text \<open>\<open>reflect.Kind\<close>, with the integer widths merged.\<close>

datatype reflect_Kind =
    reflect_Invalid | reflect_Bool | reflect_Int | reflect_Uint | reflect_Uintptr
  | reflect_Float32 | reflect_Float64 | reflect_Array | reflect_Chan | reflect_Func
  | reflect_Map | reflect_Ptr | reflect_Slice | reflect_String | reflect_Struct

text \<open>\<open>reflect.ValueOf(x).Kind()\<close>, \<open>.IsNil()\<close> and \<open>.Elem().Interface()\<close> on a pointer.\<close>

fun Kind :: "gvalue \<Rightarrow> reflect_Kind" where
  "Kind GNil = reflect_Invalid"
| "Kind (GString _) = reflect_String"
| "Kind (GInt _) = reflect_Int"
| "Kind (GUint _) = reflect_Uint"
| "Kind (GFloat32 _) = reflect_Float32"
| "Kind (GFloat64 _) = reflect_Float64"
| "Kind (GBool _) = reflect_Bool"
| "Kind (GStruct _) = reflect_Struct"
| "Kind (GMap _) = reflect_Map"
| "Kind GNilMap = reflect_Map"
| "Kind (GSlice _) = reflect_Slice"
| "Kind GNilSlice = reflect_Slice"
| "Kind (GArray _) = reflect_Array"
| "Kind (GPtr _ _) = reflect_Ptr"
| "Kind GNilPtr = reflect_Ptr"
| "Kind (GChan _) = reflect_Chan"
| "Kind (GFunc _) = reflect_Func"
| "Kind (GUintptr _) = reflect_Uintptr"
| "Kind (GNamed _ v) = Kind v"

fun IsNil :: "gvalue \<Rightarrow> bool" where
  "IsNil GNilPtr = True"
| "IsNil (GNamed _ v) = IsNil v"
| "IsNil _ = False"

fun Elem :: "gvalue \<Rightarrow> gvalue" where
  "Elem (GPtr _ v) = v"
| "Elem (GNamed _ v) = Elem v"
| "Elem v = v"

subsection \<open>The client, its errors, requests and responses\<close>

text \<open>\<open>http.Client\<close>: the timeout in nanoseconds and a handle of the transport
  (\<open>None\<close> is the nil transport, that is \<open>http.DefaultTransport\<close>). The field
  \<open>httpClient\<close> of the client holds the \<open>http.Client\<close> it points to: the pointer is taken
  to be non-nil, as \<open>NewBaseClient\<close> makes it (with a nil \<open>http.Client\<close>, \<open>WithTimeout\<close>
  and \<open>Do\<close> dereference nil and panic before any request is sent).\<close>

record http_Client =
  Timeout :: int
  Transport :: "nat option"

record BaseClient =
  baseURL :: string
  apiKey :: string
  httpClient :: http_Client
  visitorID :: string

record Error =
  Code :: string
  Message :: string
  Details :: string

text \<open>\<open>func (e *Error) Error() string\<close>.\<close>

definition Error_Error :: "Error \<Rightarrow> string" where
  "Error_Error e =
     (if Details e \<noteq> [] then Code e @ '': '' @ Message e @ '' ('' @ Details e @ '')''
      else Code e @ '': '' @ Message e)"

text \<open>
  A Go \<open>error\<close>: either the message of an error made by \<open>fmt.Errorf\<close> (a wrapped error
  contributes its own message), or a pointer to an \<open>Error\<close>.
\<close>

datatype gerror = Errorf string | APIError Error

text \<open>A \<open>context.Context\<close> is an opaque handle; 0 is the nil context.\<close>

type_synonym Context = nat

record request =
  Ctx :: Context
  Method :: string
  URL :: string
  Header :: "string \<rightharpoonup> string list"
  ReqBody :: "string option"

text \<open>A response: the status code and what \<open>io.ReadAll(resp.Body)\<close> returns
  (\<open>Inl\<close> the message of its error).\<close>

record response =
  StatusCode :: int
  RespBody :: "string + string"

subsection \<open>The standard library behind the client\<close>

text \<open>
  What the client calls and does not define: reflection-driven formatting and JSON coding,
  request validation and the network. They are parameters of the model, so a theorem
  below holds whatever they return unless it states an assumption on them. A library
  error is its message, on the left of a sum.
  \<^item> \<open>json_Marshal v\<close> is \<open>json.Marshal(v)\<close>;
  \<^item> \<open>Sprintf_v v\<close> is \<open>fmt.Sprintf("%v", v)\<close> and \<open>Sprintf_g v\<close> is
    \<open>fmt.Sprintf("%g", v)\<close>;
  \<^item> \<open>json_Unmarshal_Error data\<close> is \<open>json.Unmarshal(data, &apiErr)\<close> on a zero
    \<open>Error\<close>, returning the filled \<open>apiErr\<close>;
  \<^item> \<open>NewRequest_err ctx method url\<close> is the error, if any, of
    \<open>http.NewRequestWithContext\<close> (invalid method, unparsable URL, nil context);
  \<^item> \<open>client_Do hc req\<close> is \<open>hc.Do(req)\<close>.
\<close>

record golib =
  json_Marshal :: "gvalue \<Rightarrow> string + string"
  Sprintf_v :: "gvalue \<Rightarrow> string"
  Sprintf_g :: "gvalue \<Rightarrow> string"
  json_Unmarshal_Error :: "string \<Rightarrow> string + Error"
  NewRequest_err :: "Context \<Rightarrow> string \<Rightarrow> string \<Rightarrow> string option"
  client_Do :: "http_Client \<Rightarrow> request \<Rightarrow> string + response"

section \<open>Construction of the client\<close>

definition DefaultBaseURL :: string where
  "DefaultBaseURL = ''https://api.thecompaniesapi.com''"

text \<open>\<open>300 * time.Second\<close>, in nanoseconds.\<close>

definition DefaultTimeout :: int where
  "DefaultTimeout = 300 * 1000000000"

type_synonym BaseClientOption = "BaseClient \<Rightarrow> BaseClient"

definition WithCustomBaseURL :: "string \<Rightarrow> BaseClientOption" where
  "WithCustomBaseURL url c = c\<lparr>baseURL := url\<rparr>"

definition WithCustomHTTPClient :: "http_Client \<Rightarrow> BaseClientOption" where
  "WithCustomHTTPClient hc c = c\<lparr>httpClient := hc\<rparr>"

definition WithTimeout :: "int \<Rightarrow> BaseClientOption" where
  "WithTimeout timeout c = c\<lparr>httpClient := (httpClient c)\<lparr>Timeout := timeout\<rparr>\<rparr>"

definition WithVisitorID :: "string \<Rightarrow> BaseClientOption" where
  "WithVisitorID v c = c\<lparr>visitorID := v\<rparr>"

definition NewBaseClient :: "string \<Rightarrow> BaseClientOption list \<Rightarrow> BaseClient" where
  "NewBaseClient key options =
     fold (\<lambda>option client. option client) options
       \<lparr>baseURL = DefaultBaseURL, apiKey = key,
        httpClient = \<lparr>Timeout = DefaultTimeout, Transport = None\<rparr>, visitorID = []\<rparr>"

section \<open>BuildQueryString\<close>

text \<open>
  A \<open>map[string]interface{}\<close> is given by the list of its entries in the order in which
  \<open>range\<close> visits them; the keys of a map are distinct, and the order of a Go map range
  is not fixed.
\<close>

type_synonym params = "(string \<times> gvalue) list"

definition isJSONKind :: "reflect_Kind \<Rightarrow> bool" where
  "isJSONKind k =
     (k = reflect_Struct \<or> k = reflect_Map \<or> k = reflect_Slice \<or> k = reflect_Array)"

text \<open>The body of both \<open>case reflect.Struct, reflect.Map, reflect.Slice, reflect.Array\<close>
  branches: JSON, or the \<open>%v\<close> text when \<open>json.Marshal\<close> fails, then escaped.\<close>

definition encodeStructured :: "golib \<Rightarrow> gvalue \<Rightarrow> string" where
  "encodeStructured lib x =
     (case json_Marshal lib x of
        Inl err \<Rightarrow> QueryEscape (Sprintf_v lib x)
      | Inr jsonBytes \<Rightarrow> QueryEscape jsonBytes)"

text \<open>The type switch of the \<open>default\<close> branch.\<close>

fun encodePrimitive :: "golib \<Rightarrow> gvalue \<Rightarrow> string" where
  "encodePrimitive lib (GString val) = QueryEscape val"
| "encodePrimitive lib (GInt val) = QueryEscape (Sprintf_d val)"
| "encodePrimitive lib (GUint val) = QueryEscape (Sprintf_u val)"
| "encodePrimitive lib (GFloat32 val) = QueryEscape (Sprintf_g lib (GFloat32 val))"
| "encodePrimitive lib (GFloat64 val) = QueryEscape (Sprintf_g lib (GFloat64 val))"
| "encodePrimitive lib (GBool val) = QueryEscape (FormatBool val)"
| "encodePrimitive lib val = QueryEscape (Sprintf_v lib val)"

text \<open>The switch on \<open>v.Kind()\<close>: the encoded value, or \<open>None\<close> where the loop
  continues with the next entry (a nil pointer).\<close>

definition encodedValue :: "golib \<Rightarrow> gvalue \<Rightarrow> string option" where
  "encodedValue lib val =
     (if isJSONKind (Kind val) then Some (encodeStructured lib val)
      else if Kind val = reflect_Ptr then
        (if IsNil val then None
         else (let elem = Elem val in
               if isJSONKind (Kind elem) then Some (encodeStructured lib elem)
               else Some (QueryEscape (Sprintf_v lib elem))))
      else Some (encodePrimitive lib val))"

text \<open>The \<open>range\<close> loop, appending to \<open>parts\<close>.\<close>

fun rangeParams :: "golib \<Rightarrow> params \<Rightarrow> string list \<Rightarrow> string list" where
  "rangeParams lib [] parts = parts"
| "rangeParams lib ((key, val) # rest) parts =
     (if val = GNil then rangeParams lib rest parts
      else (case encodedValue lib val of
              None \<Rightarrow> rangeParams lib rest parts
            | Some encoded \<Rightarrow>
                rangeParams lib rest (parts @ [QueryEscape key @ ''='' @ encoded])))"

text \<open>\<open>strings.Split(part, "=")[0]\<close>.\<close>

definition partKey :: "string \<Rightarrow> string" where
  "partKey part = hd (Split part CHR ''='')"

text \<open>The inner loop \<open>for j := i + 1; j < len(parts); j++\<close>, entered at \<open>j\<close>.\<close>

function sortInner :: "nat \<Rightarrow> nat \<Rightarrow> string list \<Rightarrow> string list" where
  "sortInner i j parts =
     (if j < length parts then
        sortInner i (j + 1)
          (if partKey (parts ! i) > partKey (parts ! j)
           then parts[i := parts ! j, j := parts ! i] else parts)
      else parts)"
  by pat_completeness auto
termination
  by (relation "measure (\<lambda>(i, j, parts). length parts - j)") auto

text \<open>The outer loop \<open>for i := 0; i < len(parts)-1; i++\<close>, entered at \<open>i\<close>.\<close>

function sortOuter :: "nat \<Rightarrow> string list \<Rightarrow> string list" where
  "sortOuter i parts =
     (if i + 1 < length parts then sortOuter (i + 1) (sortInner i (i + 1) parts)
      else parts)"
  by pat_completeness auto
termination
proof (relation "measure (\<lambda>(i, parts). length parts - i)")
  show "wf (measure (\<lambda>(i, parts). length parts - i))"
    by simp
next
  fix i :: nat and parts :: "string list"
  assume less: "i + 1 < length parts"
  have "length (sortInner a b xs) = length xs" for a b xs
    by (induction a b xs rule: sortInner.induct) (subst sortInner.simps, simp)
  with less show "((i + 1, sortInner i (i + 1) parts), i, parts)
      \<in> measure (\<lambda>(i, parts). length parts - i)"
    by simp
qed

declare sortInner.simps [simp del] sortOuter.simps [simp del]

text \<open>The method; the receiver is returned as the call leaves it.\<close>

definition BuildQueryString :: "golib \<Rightarrow> BaseClient \<Rightarrow> params \<Rightarrow> string \<times> BaseClient" where
  "BuildQueryString lib c ps =
     (if length ps = 0 then ([], c)
      else (let parts = rangeParams lib ps [];
                parts = (if length parts > 1 then sortOuter 0 parts else parts)
            in (Join parts ''&'', c)))"

section \<open>MakeRequest and MakeRequestWithQuery\<close>

text \<open>
  What a call returns and leaves behind: the two results \<open>([]byte, error)\<close>, the requests
  it handed to \<open>c.httpClient.Do\<close> in order, and the receiver \<open>*c\<close> after the call.
\<close>

record outcome =
  ret_bytes :: "string option"
  ret_err :: "gerror option"
  issued :: "request list"
  receiver :: BaseClient

text \<open>\<open>req.Header.Set(key, value)\<close>; the three keys set by the client are in canonical
  form already.\<close>

definition Header_Set :: "(string \<rightharpoonup> string list) \<Rightarrow> string \<Rightarrow> string \<Rightarrow> (string \<rightharpoonup> string list)" where
  "Header_Set h key v = h(key \<mapsto> [v])"

text \<open>\<open>http.NewRequestWithContext\<close>: a request with an empty header, or the error.\<close>

definition NewRequestWithContext ::
  "golib \<Rightarrow> Context \<Rightarrow> string \<Rightarrow> string \<Rightarrow> string option \<Rightarrow> string + request" where
  "NewRequestWithContext lib ctx method url body =
     (case NewRequest_err lib ctx method url of
        Some e \<Rightarrow> Inl e
      | None \<Rightarrow>
          Inr \<lparr>Ctx = ctx, Method = (if method = [] then ''GET'' else method), URL = url,
               Header = Map.empty, ReqBody = body\<rparr>)"

text \<open>The statement \<open>return nil, fmt.Errorf(what + "%w", err)\<close>, after the requests
  \<open>reqs\<close> were handed to the transport.\<close>

definition failed :: "string \<Rightarrow> string \<Rightarrow> request list \<Rightarrow> BaseClient \<Rightarrow> outcome" where
  "failed what e reqs c =
     \<lparr>ret_bytes = None, ret_err = Some (Errorf (what @ e)), issued = reqs, receiver = c\<rparr>"

text \<open>Lines 202 to 209: the request body, \<open>None\<close> for a nil \<open>io.Reader\<close>.\<close>

definition marshalBody :: "golib \<Rightarrow> gvalue \<Rightarrow> string + string option" where
  "marshalBody lib body =
     (if body \<noteq> GNil
      then (case json_Marshal lib body of
              Inl e \<Rightarrow> Inl e
            | Inr jsonBody \<Rightarrow> Inr (Some jsonBody))
      else Inr None)"

text \<open>Lines 216 to 223: the three headers.\<close>

definition setHeaders :: "BaseClient \<Rightarrow> gvalue \<Rightarrow> request \<Rightarrow> request" where
  "setHeaders c body req0 =
     (let req1 = req0\<lparr>Header :=
                   Header_Set (Header req0) ''Authorization'' (''Basic '' @ apiKey c)\<rparr>;
          req2 = (if body \<noteq> GNil
                  then req1\<lparr>Header :=
                         Header_Set (Header req1) ''Content-Type'' ''application/json''\<rparr>
                  else req1)
      in if visitorID c \<noteq> []
         then req2\<lparr>Header := Header_Set (Header req2) ''Tca-Visitor-Id'' (visitorID c)\<rparr>
         else req2)"

text \<open>Lines 231 to 244: reading the response of the request \<open>req\<close>.\<close>

definition readResponse :: "golib \<Rightarrow> BaseClient \<Rightarrow> request \<Rightarrow> response \<Rightarrow> outcome" where
  "readResponse lib c req resp =
     (case RespBody resp of
        Inl e \<Rightarrow> failed ''failed to read response body: '' e [req] c
      | Inr responseBody \<Rightarrow>
          if StatusCode resp \<ge> 400 then
            (case json_Unmarshal_Error lib responseBody of
               Inl e \<Rightarrow>
                 \<lparr>ret_bytes = None,
                  ret_err = Some (Errorf (''HTTP '' @ Sprintf_d (StatusCode resp)
                                          @ '': '' @ responseBody)),
                  issued = [req], receiver = c\<rparr>
             | Inr apiErr \<Rightarrow>
                 \<lparr>ret_bytes = None, ret_err = Some (APIError apiErr),
                  issued = [req], receiver = c\<rparr>)
          else
            \<lparr>ret_bytes = Some responseBody, ret_err = None, issued = [req], receiver = c\<rparr>)"

definition MakeRequest ::
  "golib \<Rightarrow> BaseClient \<Rightarrow> Context \<Rightarrow> string \<Rightarrow> string \<Rightarrow> gvalue \<Rightarrow> outcome" where
  "MakeRequest lib c ctx method path body =
     (case marshalBody lib body of
        Inl e \<Rightarrow> failed ''failed to marshal request body: '' e [] c
      | Inr reqBody \<Rightarrow>
          (case NewRequestWithContext lib ctx method (baseURL c @ path) reqBody of
             Inl e \<Rightarrow> failed ''failed to create request: '' e [] c
           | Inr req0 \<Rightarrow>
               (let req = setHeaders c body req0
                in case client_Do lib (httpClient c) req of
                     Inl e \<Rightarrow> failed ''failed to execute request: '' e [req] c
                   | Inr resp \<Rightarrow> readResponse lib c req resp)))"

text \<open>The first half of \<open>MakeRequestWithQuery\<close>: \<open>fullPath\<close>, and the receiver after the
  call of \<open>BuildQueryString\<close>.\<close>

definition queryPath :: "golib \<Rightarrow> BaseClient \<Rightarrow> string \<Rightarrow> params \<Rightarrow> string \<times> BaseClient" where
  "queryPath lib c path queryParams =
     (if length queryParams > 0 then
        (let (queryString, c1) = BuildQueryString lib c queryParams
         in if queryString \<noteq> []
            then (path @ (if Contains path CHR ''?'' then ''&'' else ''?'') @ queryString, c1)
            else (path, c1))
      else (path, c))"

definition MakeRequestWithQuery ::
  "golib \<Rightarrow> BaseClient \<Rightarrow> Context \<Rightarrow> string \<Rightarrow> string \<Rightarrow> params \<Rightarrow> gvalue \<Rightarrow> outcome" where
  "MakeRequestWithQuery lib c ctx method path queryParams body =
     (let (fullPath, c1) = queryPath lib c path queryParams
      in MakeRequest lib c1 ctx method fullPath body)"

definition BaseURL :: "BaseClient \<Rightarrow> string \<times> BaseClient" where
  "BaseURL c = (baseURL c, c)"

definition HTTPClient :: "BaseClient \<Rightarrow> http_Client \<times> BaseClient" where
  "HTTPClient c = (httpClient c, c)"

section \<open>Loop invariants of the sort\<close>

text \<open>Outer loop: the first \<open>i\<close> parts are in key order and below all later parts.
  Inner loop: part \<open>i\<close> is below the parts between \<open>i\<close> and \<open>j\<close>.\<close>

definition keysBelow :: "nat \<Rightarrow> string list \<Rightarrow> bool" where
  "keysBelow i parts =
     (\<forall>a b. a < b \<and> a < i \<and> b < length parts \<longrightarrow> partKey (parts ! a) \<le> partKey (parts ! b))"

definition minUpTo :: "nat \<Rightarrow> nat \<Rightarrow> string list \<Rightarrow> bool" where
  "minUpTo i j parts =
     (\<forall>m. i < m \<and> m < j \<and> m < length parts \<longrightarrow> partKey (parts ! i) \<le> partKey (parts ! m))"

section \<open>Reading a query string\<close>

text \<open>
  The properties below speak of the key=value pairs of the returned string. A query string
  is read as \<open>url.ParseQuery\<close> cuts it: the parts between \<open>&\<close>, each cut at its
  first \<open>=\<close> (the keys are cut as the sort of \<open>BuildQueryString\<close> cuts them); the
  empty string has no pair. Keys and values are left percent-encoded.
\<close>

definition partValue :: "string \<Rightarrow> string" where
  "partValue part = drop (Suc (length (partKey part))) part"

definition queryPairs :: "string \<Rightarrow> (string \<times> string) list" where
  "queryPairs q =
     (if q = [] then [] else map (\<lambda>part. (partKey part, partValue part)) (Split q CHR ''&''))"

text \<open>The entries that the \<open>range\<close> loop skips: a nil value, or a nil pointer.\<close>

definition absent :: "gvalue \<Rightarrow> bool" where
  "absent val = (val = GNil \<or> (Kind val = reflect_Ptr \<and> IsNil val))"

text \<open>The part that the loop appends for an entry that is not skipped.\<close>

definition entryPart :: "golib \<Rightarrow> string \<times> gvalue \<Rightarrow> string" where
  "entryPart lib e = QueryEscape (fst e) @ ''='' @ the (encodedValue lib (snd e))"

text \<open>The list \<open>parts\<close> when it is joined.\<close>

definition finalParts :: "golib \<Rightarrow> params \<Rightarrow> string list" where
  "finalParts lib ps =
     (let parts = rangeParams lib ps []
      in if length parts > 1 then sortOuter 0 parts else parts)"

section \<open>\<open>encoding/json\<close>\<close>

text \<open>
  The texts that \<open>json.Marshal\<close> writes and that \<open>json.Valid\<close> and \<open>json.Unmarshal\<close> read, as
  the package documents them. The values are the dynamic values of \<open>gvalue\<close>, with the
  static types that they show: the elements of a \<open>GSlice\<close> are not bytes (a byte slice is
  written in base64), a \<open>GStruct\<close> lists the fields that are written (exported, not
  embedded, none left out by its tag), each under the name it is written with, a map has
  a key type that its keys share, and a defined type has no \<open>MarshalJSON\<close> or
  \<open>MarshalText\<close> method of its own. The digits that \<open>strconv\<close> writes for a float are a
  parameter. The limit of the decoder on nesting (10000 levels) is left out.
\<close>

subsection \<open>JSON values and texts\<close>

datatype json =
    JNull | JBool bool | JNumber string | JString string
  | JArray "json list" | JObject "(string \<times> json) list"

definition isSpace :: "char \<Rightarrow> bool" where
  "isSpace c = (c = CHR '' '' \<or> c = CHR 0x09 \<or> c = CHR 0x0A \<or> c = CHR 0x0D)"

definition skipSpace :: "string \<Rightarrow> string" where
  "skipSpace s = dropWhile isSpace s"

definition isDigit :: "char \<Rightarrow> bool" where
  "isDigit c = (CHR ''0'' \<le> c \<and> c \<le> CHR ''9'')"

subsection \<open>UTF-8\<close>

text \<open>The table \<open>first\<close> of \<open>unicode/utf8\<close>: for a leading byte, the size of the encoding
  and the range accepted for the second byte; size 0 for a byte that leads nothing.\<close>

definition runeShape :: "char \<Rightarrow> nat \<times> char \<times> char" where
  "runeShape b =
     (if CHR 0xC2 \<le> b \<and> b \<le> CHR 0xDF then (2, CHR 0x80, CHR 0xBF)
      else if b = CHR 0xE0 then (3, CHR 0xA0, CHR 0xBF)
      else if b = CHR 0xED then (3, CHR 0x80, CHR 0x9F)
      else if CHR 0xE1 \<le> b \<and> b \<le> CHR 0xEF then (3, CHR 0x80, CHR 0xBF)
      else if b = CHR 0xF0 then (4, CHR 0x90, CHR 0xBF)
      else if CHR 0xF1 \<le> b \<and> b \<le> CHR 0xF3 then (4, CHR 0x80, CHR 0xBF)
      else if b = CHR 0xF4 then (4, CHR 0x80, CHR 0x8F)
      else (0, CHR 0x80, CHR 0xBF))"

text \<open>\<open>utf8.DecodeRune\<close>: the size of the well-formed encoding at the head of the bytes,
  0 where it returns \<open>RuneError\<close> (then one byte is skipped).\<close>

definition runeSize :: "string \<Rightarrow> nat" where
  "runeSize s =
     (case s of
        [] \<Rightarrow> 0
      | b # r \<Rightarrow>
          if b < CHR 0x80 then 1
          else (case runeShape b of
                  (n, lo, hi) \<Rightarrow>
                    if n = 0 \<or> length s < n then 0
                    else if lo \<le> hd r \<and> hd r \<le> hi
                            \<and> (\<forall>c\<in>set (take (n - 2) (tl r)). CHR 0x80 \<le> c \<and> c \<le> CHR 0xBF)
                    then n else 0))"

text \<open>A string cut into its runes: well-formed encodings, and single bytes that are not.\<close>

function runes :: "string \<Rightarrow> string list" where
  "runes s = (if s = [] then [] else take (max 1 (runeSize s)) s # runes (drop (max 1 (runeSize s)) s))"
  by pat_completeness auto
termination
  by (relation "measure length") auto

declare runes.simps [simp del]

definition replacement :: string where
  "replacement = [CHR 0xEF, CHR 0xBF, CHR 0xBD]"

definition validUTF8 :: "string \<Rightarrow> bool" where
  "validUTF8 s = (\<forall>r\<in>set (runes s). runeSize r \<noteq> 0)"

text \<open>A string coerced to well-formed UTF-8: each byte that is not part of a well-formed
  encoding becomes U+FFFD.\<close>

definition coerceUTF8 :: "string \<Rightarrow> string" where
  "coerceUTF8 s = concat (map (\<lambda>r. if runeSize r = 0 then replacement else r) (runes s))"

text \<open>\<open>utf8.EncodeRune\<close>; a surrogate is encoded as U+FFFD.\<close>

definition utf8 :: "nat \<Rightarrow> string" where
  "utf8 n =
     (if n < 128 then [char_of n]
      else if n < 2048 then [char_of (192 + n div 64), char_of (128 + n mod 64)]
      else if 55296 \<le> n \<and> n < 57344 then replacement
      else if n < 65536 then
        [char_of (224 + n div 4096), char_of (128 + n div 64 mod 64), char_of (128 + n mod 64)]
      else [char_of (240 + n div 262144), char_of (128 + n div 4096 mod 64),
            char_of (128 + n div 64 mod 64), char_of (128 + n mod 64)])"

subsection \<open>Strings of a JSON text\<close>

definition lowerhex :: string where
  "lowerhex = ''0123456789abcdef''"

text \<open>The encoding of one byte below \<open>0x80\<close>, with HTML escaping as \<open>json.Marshal\<close> does.\<close>

definition jsonEscapeByte :: "char \<Rightarrow> string" where
  "jsonEscapeByte c =
     (if c = CHR 0x22 \<or> c = CHR 0x5C then [CHR 0x5C, c]
      else if c = CHR 0x08 then [CHR 0x5C, CHR ''b'']
      else if c = CHR 0x0C then [CHR 0x5C, CHR ''f'']
      else if c = CHR 0x0A then [CHR 0x5C, CHR ''n'']
      else if c = CHR 0x0D then [CHR 0x5C, CHR ''r'']
      else if c = CHR 0x09 then [CHR 0x5C, CHR ''t'']
      else if c < CHR '' '' \<or> c = CHR ''<'' \<or> c = CHR ''>'' \<or> c = CHR ''&''
        then [CHR 0x5C, CHR ''u'', CHR ''0'', CHR ''0'',
              lowerhex ! (of_char c div 16), lowerhex ! (of_char c mod 16)]
      else [c])"

text \<open>The encoding of one rune: a byte that is not part of a well-formed encoding is
  written as the escape of U+FFFD, the separators U+2028 and U+2029 are escaped, other
  runes above \<open>0x7F\<close> are copied.\<close>

definition jsonEscapeRune :: "string \<Rightarrow> string" where
  "jsonEscapeRune r =
     (if runeSize r = 0 then CHR 0x5C # ''ufffd''
      else if r = [CHR 0xE2, CHR 0x80, CHR 0xA8] then CHR 0x5C # ''u2028''
      else if r = [CHR 0xE2, CHR 0x80, CHR 0xA9] then CHR 0x5C # ''u2029''
      else if length r = 1 then jsonEscapeByte (hd r)
      else r)"

definition jsonQuote :: "string \<Rightarrow> string" where
  "jsonQuote s = CHR 0x22 # concat (map jsonEscapeRune (runes s)) @ [CHR 0x22]"

text \<open>\<open>getu4\<close> of \<open>encoding/json\<close>: the number of an escape \<open>u\<close> with four hex digits at the head.\<close>

definition getu4 :: "string \<Rightarrow> nat option" where
  "getu4 s =
     (case s of
        b # u # h1 # h2 # h3 # h4 # _ \<Rightarrow>
          if b = CHR 0x5C \<and> u = CHR ''u'' \<and> ishex h1 \<and> ishex h2 \<and> ishex h3 \<and> ishex h4
          then Some (((unhex h1 * 16 + unhex h2) * 16 + unhex h3) * 16 + unhex h4)
          else None
      | _ \<Rightarrow> None)"

text \<open>The character of a one-letter escape.\<close>

definition unescapeLetter :: "char \<Rightarrow> char option" where
  "unescapeLetter e =
     map_of [(CHR 0x22, CHR 0x22), (CHR 0x5C, CHR 0x5C), (CHR ''/'', CHR ''/''),
             (CHR ''b'', CHR 0x08), (CHR ''f'', CHR 0x0C), (CHR ''n'', CHR 0x0A),
             (CHR ''r'', CHR 0x0D), (CHR ''t'', CHR 0x09)] e"

definition prepend :: "string \<Rightarrow> (string \<times> string) option \<Rightarrow> (string \<times> string) option" where
  "prepend t r = map_option (\<lambda>(u, rest). (t @ u, rest)) r"

text \<open>
  A string literal after its opening quote: the decoded bytes and the rest of the text.
  A raw control byte is an error; escapes are decoded, a pair of surrogate escapes to one
  rune and a lone surrogate to U+FFFD; raw bytes above \<open>0x7F\<close> are coerced to well-formed
  UTF-8, as \<open>unquote\<close> of \<open>encoding/json\<close> does.
\<close>

function parseString :: "string \<Rightarrow> (string \<times> string) option" where
  "parseString s =
     (case s of
        [] \<Rightarrow> None
      | c # r \<Rightarrow>
          if c = CHR 0x22 then Some ([], r)
          else if c = CHR 0x5C then
            (case r of
               [] \<Rightarrow> None
             | e # r' \<Rightarrow>
                 if e = CHR ''u'' then
                   (case getu4 s of
                      None \<Rightarrow> None
                    | Some rr \<Rightarrow>
                        if 55296 \<le> rr \<and> rr < 57344 then
                          (case getu4 (drop 6 s) of
                             None \<Rightarrow> prepend replacement (parseString (drop 6 s))
                           | Some rr1 \<Rightarrow>
                               if rr < 56320 \<and> 56320 \<le> rr1 \<and> rr1 < 57344
                               then prepend (utf8 (65536 + (rr - 55296) * 1024 + (rr1 - 56320)))
                                      (parseString (drop 12 s))
                               else prepend replacement (parseString (drop 6 s)))
                        else prepend (utf8 rr) (parseString (drop 6 s)))
                 else
                   (case unescapeLetter e of
                      None \<Rightarrow> None
                    | Some d \<Rightarrow> prepend [d] (parseString r')))
          else if c < CHR '' '' then None
          else if runeSize s = 0 then prepend replacement (parseString r)
          else prepend (take (runeSize s) s) (parseString (drop (runeSize s) s)))"
  by pat_completeness auto
termination
  by (relation "measure length") (auto simp: getu4_def split: list.splits)

declare parseString.simps [simp del]

subsection \<open>Numbers of a JSON text\<close>

text \<open>A number literal is \<open>-? (0 | [1-9][0-9]*) (. [0-9]+)? ([eE] [+-]? [0-9]+)?\<close>. Each
  part returns what it read and the rest.\<close>

definition parseDigits :: "string \<Rightarrow> (string \<times> string) option" where
  "parseDigits s =
     (if takeWhile isDigit s = [] then None
      else Some (takeWhile isDigit s, dropWhile isDigit s))"

definition parseSign :: "string \<Rightarrow> (string \<times> string) option" where
  "parseSign s =
     (case s of
        [] \<Rightarrow> Some ([], s)
      | c # r \<Rightarrow> if c = CHR ''-'' then Some (''-'', r) else Some ([], s))"

definition parseInt :: "string \<Rightarrow> (string \<times> string) option" where
  "parseInt s =
     (case s of
        [] \<Rightarrow> None
      | c # r \<Rightarrow> if c = CHR ''0'' then Some (''0'', r) else parseDigits s)"

definition parseFrac :: "string \<Rightarrow> (string \<times> string) option" where
  "parseFrac s =
     (case s of
        [] \<Rightarrow> Some ([], s)
      | c # r \<Rightarrow> if c = CHR ''.'' then prepend ''.'' (parseDigits r) else Some ([], s))"

definition parseExp :: "string \<Rightarrow> (string \<times> string) option" where
  "parseExp s =
     (case s of
        [] \<Rightarrow> Some ([], s)
      | c # r \<Rightarrow>
          if c = CHR ''e'' \<or> c = CHR ''E'' then
            (case r of
               [] \<Rightarrow> None
             | g # r' \<Rightarrow>
                 if g = CHR ''+'' \<or> g = CHR ''-'' then prepend [c, g] (parseDigits r')
                 else prepend [c] (parseDigits r))
          else Some ([], s))"

text \<open>One part after another, the texts read joined.\<close>

definition andThen ::
  "(string \<Rightarrow> (string \<times> string) option) \<Rightarrow> (string \<Rightarrow> (string \<times> string) option)
     \<Rightarrow> string \<Rightarrow> (string \<times> string) option" where
  "andThen p q s = (case p s of None \<Rightarrow> None | Some (t, r) \<Rightarrow> prepend t (q r))"

definition parseNumber :: "string \<Rightarrow> (string \<times> string) option" where
  "parseNumber = andThen parseSign (andThen parseInt (andThen parseFrac parseExp))"

text \<open>A text that is one number literal.\<close>

definition numberLiteral :: "string \<Rightarrow> bool" where
  "numberLiteral t = (parseNumber t = Some (t, []))"

subsection \<open>Parsing a JSON text\<close>

text \<open>Values, array elements (after \<open>[\<close>) and object members (after \<open>{\<close>), by recursive
  descent with fuel.\<close>

fun parseValue :: "nat \<Rightarrow> string \<Rightarrow> (json \<times> string) option"
  and parseElems :: "nat \<Rightarrow> string \<Rightarrow> (json list \<times> string) option"
  and parseMembers :: "nat \<Rightarrow> string \<Rightarrow> ((string \<times> json) list \<times> string) option" where
  "parseValue 0 s = None"
| "parseValue (Suc n) s =
     (case s of
        [] \<Rightarrow> None
      | c # r \<Rightarrow>
          if c = CHR ''{'' then
            (case skipSpace r of
               [] \<Rightarrow> None
             | d # r' \<Rightarrow>
                 if d = CHR ''}'' then Some (JObject [], r')
                 else map_option (\<lambda>(ms, rest). (JObject ms, rest)) (parseMembers n (d # r')))
          else if c = CHR ''['' then
            (case skipSpace r of
               [] \<Rightarrow> None
             | d # r' \<Rightarrow>
                 if d = CHR '']'' then Some (JArray [], r')
                 else map_option (\<lambda>(vs, rest). (JArray vs, rest)) (parseElems n (d # r')))
          else if c = CHR 0x22 then map_option (\<lambda>(t, rest). (JString t, rest)) (parseString r)
          else if take 4 s = ''true'' then Some (JBool True, drop 4 s)
          else if take 5 s = ''false'' then Some (JBool False, drop 5 s)
          else if take 4 s = ''null'' then Some (JNull, drop 4 s)
          else map_option (\<lambda>(t, rest). (JNumber t, rest)) (parseNumber s))"
| "parseElems 0 s = None"
| "parseElems (Suc n) s =
     (case parseValue n s of
        None \<Rightarrow> None
      | Some (v, r) \<Rightarrow>
          (case skipSpace r of
             [] \<Rightarrow> None
           | d # r' \<Rightarrow>
               if d = CHR '','' then
                 map_option (\<lambda>(vs, rest). (v # vs, rest)) (parseElems n (skipSpace r'))
               else if d = CHR '']'' then Some ([v], r')
               else None))"
| "parseMembers 0 s = None"
| "parseMembers (Suc n) s =
     (case s of
        [] \<Rightarrow> None
      | q # r \<Rightarrow>
          if q \<noteq> CHR 0x22 then None
          else
            (case parseString r of
               None \<Rightarrow> None
             | Some (k, r1) \<Rightarrow>
                 (case skipSpace r1 of
                    [] \<Rightarrow> None
                  | d # r2 \<Rightarrow>
                      if d \<noteq> CHR '':'' then None
                      else
                        (case parseValue n (skipSpace r2) of
                           None \<Rightarrow> None
                         | Some (v, r3) \<Rightarrow>
                             (case skipSpace r3 of
                                [] \<Rightarrow> None
                              | e # r4 \<Rightarrow>
                                  if e = CHR '','' then
                                    map_option (\<lambda>(ms, rest). ((k, v) # ms, rest))
                                      (parseMembers n (skipSpace r4))
                                  else if e = CHR ''}'' then Some ([(k, v)], r4)
                                  else None)))))"

text \<open>A whole text: one value between optional white space.\<close>

definition parseJSON :: "string \<Rightarrow> json option" where
  "parseJSON s =
     (case parseValue (2 * length s + 2) (skipSpace s) of
        None \<Rightarrow> None
      | Some (v, r) \<Rightarrow> if skipSpace r = [] then Some v else None)"

text \<open>The text is a JSON value in the grammar of RFC 8259, as \<open>json.Valid\<close> decides it.\<close>

definition json_Valid :: "string \<Rightarrow> bool" where
  "json_Valid s = (parseJSON s \<noteq> None)"

subsection \<open>Writing a JSON value\<close>

text \<open>The compact text of a JSON value, as \<open>encoding/json\<close> writes it.\<close>

fun render :: "json \<Rightarrow> string" where
  "render JNull = ''null''"
| "render (JBool b) = FormatBool b"
| "render (JNumber t) = t"
| "render (JString s) = jsonQuote s"
| "render (JArray xs) = ''['' @ Join (map render xs) '','' @ '']''"
| "render (JObject ms) =
     ''{'' @ Join (map (\<lambda>m. jsonQuote (fst m) @ '':'' @ render (snd m)) ms) '','' @ ''}''"

text \<open>The value that a text decodes to when a string of the value written was not
  well-formed UTF-8.\<close>

fun coerceJSON :: "json \<Rightarrow> json" where
  "coerceJSON (JString s) = JString (coerceUTF8 s)"
| "coerceJSON (JArray xs) = JArray (map coerceJSON xs)"
| "coerceJSON (JObject ms) = JObject (map (\<lambda>m. (coerceUTF8 (fst m), coerceJSON (snd m))) ms)"
| "coerceJSON j = j"

fun validStrings :: "json \<Rightarrow> bool" where
  "validStrings (JString s) = validUTF8 s"
| "validStrings (JArray xs) = (\<forall>x\<in>set xs. validStrings x)"
| "validStrings (JObject ms) = (\<forall>m\<in>set ms. validUTF8 (fst m) \<and> validStrings (snd m))"
| "validStrings j = True"

text \<open>The JSON values whose numbers are number literals.\<close>

fun wellFormed :: "json \<Rightarrow> bool" where
  "wellFormed (JNumber t) = numberLiteral t"
| "wellFormed (JArray xs) = (\<forall>x\<in>set xs. wellFormed x)"
| "wellFormed (JObject ms) = (\<forall>m\<in>set ms. wellFormed (snd m))"
| "wellFormed j = True"

subsection \<open>\<open>json.Marshal\<close>\<close>

text \<open>A float is finite when its exponent bits are not all ones; \<open>json.Marshal\<close> refuses
  the others (NaN and the infinities).\<close>

fun finiteFloat :: "gvalue \<Rightarrow> bool" where
  "finiteFloat (GFloat32 w) = (take_bit 8 (drop_bit 23 w) \<noteq> 255)"
| "finiteFloat (GFloat64 w) = (take_bit 11 (drop_bit 52 w) \<noteq> 2047)"
| "finiteFloat _ = False"

text \<open>The text of a map key: strings and integers can be keys.\<close>

fun mapKeyText :: "gvalue \<Rightarrow> string option" where
  "mapKeyText (GString s) = Some s"
| "mapKeyText (GInt i) = Some (Sprintf_d i)"
| "mapKeyText (GUint n) = Some (Sprintf_u n)"
| "mapKeyText (GUintptr n) = Some (Sprintf_u n)"
| "mapKeyText (GNamed _ v) = mapKeyText v"
| "mapKeyText _ = None"

text \<open>
  The JSON value of a Go value, by the mapping that the documentation of \<open>json.Marshal\<close>
  gives: booleans, numbers and strings as such, slices and arrays as arrays, structs
  (fields in order) and maps (keys sorted) as objects, a pointer as its pointee, nil as
  null. \<open>None\<close> is an \<open>UnsupportedTypeError\<close> (channels, functions, other map
  keys) or an \<open>UnsupportedValueError\<close> (floats that are not finite). \<open>fl\<close> gives the digits
  that \<open>strconv\<close> writes for a finite float.
\<close>

fun toJSON :: "(gvalue \<Rightarrow> string) \<Rightarrow> gvalue \<Rightarrow> json option"
  and toJSONList :: "(gvalue \<Rightarrow> string) \<Rightarrow> gvalue list \<Rightarrow> json list option"
  and toJSONFields :: "(gvalue \<Rightarrow> string) \<Rightarrow> (string \<times> gvalue) list \<Rightarrow> (string \<times> json) list option"
  and toJSONEntries :: "(gvalue \<Rightarrow> string) \<Rightarrow> (gvalue \<times> gvalue) list \<Rightarrow> (string \<times> json) list option" where
  "toJSON fl GNil = Some JNull"
| "toJSON fl (GString s) = Some (JString s)"
| "toJSON fl (GInt i) = Some (JNumber (Sprintf_d i))"
| "toJSON fl (GUint n) = Some (JNumber (Sprintf_u n))"
| "toJSON fl (GFloat32 w) =
     (if finiteFloat (GFloat32 w) then Some (JNumber (fl (GFloat32 w))) else None)"
| "toJSON fl (GFloat64 w) =
     (if finiteFloat (GFloat64 w) then Some (JNumber (fl (GFloat64 w))) else None)"
| "toJSON fl (GBool b) = Some (JBool b)"
| "toJSON fl (GStruct fs) = map_option JObject (toJSONFields fl fs)"
| "toJSON fl (GMap es) = map_option (\<lambda>ms. JObject (sort_key fst ms)) (toJSONEntries fl es)"
| "toJSON fl GNilMap = Some JNull"
| "toJSON fl (GSlice xs) = map_option JArray (toJSONList fl xs)"
| "toJSON fl GNilSlice = Some JNull"
| "toJSON fl (GArray xs) = map_option JArray (toJSONList fl xs)"
| "toJSON fl (GPtr _ v) = toJSON fl v"
| "toJSON fl GNilPtr = Some JNull"
| "toJSON fl (GChan _) = None"
| "toJSON fl (GFunc _) = None"
| "toJSON fl (GUintptr n) = Some (JNumber (Sprintf_u n))"
| "toJSON fl (GNamed _ v) = toJSON fl v"
| "toJSONList fl [] = Some []"
| "toJSONList fl (x # xs) =
     (case toJSON fl x of
        None \<Rightarrow> None
      | Some j \<Rightarrow> map_option ((#) j) (toJSONList fl xs))"
| "toJSONFields fl [] = Some []"
| "toJSONFields fl ((name, x) # fs) =
     (case toJSON fl x of
        None \<Rightarrow> None
      | Some j \<Rightarrow> map_option ((#) (name, j)) (toJSONFields fl fs))"
| "toJSONEntries fl [] = Some []"
| "toJSONEntries fl ((k, x) # es) =
     (case mapKeyText k of
        None \<Rightarrow> None
      | Some kt \<Rightarrow>
          (case toJSON fl x of
             None \<Rightarrow> None
           | Some j \<Rightarrow> map_option ((#) (kt, j)) (toJSONEntries fl es)))"

text \<open>The bytes that \<open>json.Marshal\<close> returns; \<open>None\<close> is its error.\<close>

definition marshalValue :: "(gvalue \<Rightarrow> string) \<Rightarrow> gvalue \<Rightarrow> string option" where
  "marshalValue fl v = map_option render (toJSON fl v)"

text \<open>
  On the value \<open>v\<close>, \<open>fl\<close> and the library are \<open>encoding/json\<close>: \<open>json.Marshal\<close> of the
  library returns the bytes of \<open>marshalValue\<close> if that has some and an error if it has
  none, and the digits written for a finite float are a number literal.
\<close>

definition encodingJSON :: "(gvalue \<Rightarrow> string) \<Rightarrow> golib \<Rightarrow> gvalue \<Rightarrow> bool" where
  "encodingJSON fl lib v =
     ((\<forall>t. json_Marshal lib v = Inr t \<longleftrightarrow> marshalValue fl v = Some t)
      \<and> (\<forall>f. finiteFloat f \<longrightarrow> numberLiteral (fl f)))"

subsection \<open>Notions used in the proofs about texts\<close>

text \<open>A rune as \<open>runes\<close> cuts it: a well-formed encoding, or one byte that is none.\<close>

definition isRune :: "string \<Rightarrow> bool" where
  "isRune r = (r \<noteq> [] \<and> (runeSize r = length r \<or> (runeSize r = 0 \<and> length r = 1)))"

text \<open>What may follow a value inside a text: nothing, or one of \<open>, ] }\<close>.\<close>

definition delimited :: "string \<Rightarrow> bool" where
  "delimited rest = (rest = [] \<or> hd rest = CHR '','' \<or> hd rest = CHR '']'' \<or> hd rest = CHR ''}'')"

text \<open>A reader that reads the same from a text when a delimited rest follows it.\<close>

definition framed :: "(string \<Rightarrow> (string \<times> string) option) \<Rightarrow> bool" where
  "framed p = (\<forall>s t r rest. p s = Some (t, r) \<and> delimited rest \<longrightarrow> p (s @ rest) = Some (t, r @ rest))"

section \<open>An instance of the standard library\<close>

text \<open>
  To run the model on concrete inputs the library parameters need values. \<open>stdlib\<close>
  follows \<open>encoding/json\<close>, \<open>fmt\<close> and \<open>net/http\<close> on a fragment: nil, strings,
  integers, booleans, slices, arrays, maps, structs with exported untagged fields,
  pointers, channels and functions. Floats are outside the fragment (their renderings
  are placeholders, and no example below holds a float). Error messages are shortened.
  No general theorem depends on \<open>stdlib\<close>: it serves the examples, witnesses and
  counterexamples only.
\<close>

subsection \<open>\<open>fmt.Sprintf("%v", x)\<close> on the fragment\<close>

function hexadecimal :: "nat \<Rightarrow> string" where
  "hexadecimal n = (if n < 16 then [lowerhex ! n]
                    else hexadecimal (n div 16) @ [lowerhex ! (n mod 16)])"
  by pat_completeness auto
termination
  by (relation "measure id") auto

definition printAddress :: "nat \<Rightarrow> string" where
  "printAddress a = (if a = 0 then ''<nil>'' else ''0x'' @ hexadecimal a)"

text \<open>Below depth 0 a pointer prints as its address.\<close>

function (sequential) printInner :: "gvalue \<Rightarrow> string"
  and printList :: "gvalue list \<Rightarrow> string list"
  and printFields :: "(string \<times> gvalue) list \<Rightarrow> string list"
  and printEntries :: "(gvalue \<times> gvalue) list \<Rightarrow> (string \<times> string) list" where
  "printInner GNil = ''<nil>''"
| "printInner (GString s) = s"
| "printInner (GInt i) = Sprintf_d i"
| "printInner (GUint n) = Sprintf_u n"
| "printInner (GFloat32 _) = ''?''"
| "printInner (GFloat64 _) = ''?''"
| "printInner (GBool b) = FormatBool b"
| "printInner (GStruct fs) = ''{'' @ Join (printFields fs) '' '' @ ''}''"
| "printInner (GMap es) =
     ''map['' @ Join (map (\<lambda>(k, t). k @ '':'' @ t) (sort_key fst (printEntries es))) '' '' @ '']''"
| "printInner GNilMap = ''map[]''"
| "printInner (GSlice xs) = ''['' @ Join (printList xs) '' '' @ '']''"
| "printInner GNilSlice = ''[]''"
| "printInner (GArray xs) = ''['' @ Join (printList xs) '' '' @ '']''"
| "printInner (GPtr a v) = printAddress a"
| "printInner GNilPtr = ''<nil>''"
| "printInner (GChan a) = printAddress a"
| "printInner (GFunc a) = printAddress a"
| "printInner (GUintptr n) = Sprintf_u n"
| "printInner (GNamed _ v) = printInner v"
| "printList [] = []"
| "printList (x # xs) = printInner x # printList xs"
| "printFields [] = []"
| "printFields ((name, x) # fs) = printInner x # printFields fs"
| "printEntries [] = []"
| "printEntries ((k, x) # es) = (printInner k, printInner x) # printEntries es"
  by pat_completeness auto
termination
  by (relation "measure (\<lambda>x. case x of
          Inl (Inl v) \<Rightarrow> 2 * size v + 1
        | Inl (Inr xs) \<Rightarrow> 2 * size (GSlice xs)
        | Inr (Inl fs) \<Rightarrow> 2 * size (GStruct fs)
        | Inr (Inr es) \<Rightarrow> 2 * size (GMap es))") auto

text \<open>At depth 0 a pointer to a struct, map, slice or array prints as \<open>&\<close> and the
  pointee.\<close>

fun printValue :: "gvalue \<Rightarrow> string" where
  "printValue (GPtr a v) = (if isJSONKind (Kind v) then ''&'' @ printInner v else printAddress a)"
| "printValue (GNamed _ v) = printValue v"
| "printValue v = printInner v"

subsection \<open>\<open>json.Unmarshal\<close> into an \<open>Error\<close>\<close>

definition toLower :: "string \<Rightarrow> string" where
  "toLower s = map (\<lambda>c. if CHR ''A'' \<le> c \<and> c \<le> CHR ''Z'' then char_of (of_char c + (32::nat)) else c) s"

text \<open>One member of the object: a string sets the field that its key names (case folded),
  null leaves it, another value is an \<open>UnmarshalTypeError\<close>; other keys are ignored.\<close>

fun setErrorField :: "string \<times> json \<Rightarrow> Error option \<Rightarrow> Error option" where
  "setErrorField (k, v) None = None"
| "setErrorField (k, v) (Some e) =
     (if toLower k \<in> {''code'', ''message'', ''details''} then
        (case v of
           JString s \<Rightarrow>
             Some (if toLower k = ''code'' then e\<lparr>Code := s\<rparr>
                   else if toLower k = ''message'' then e\<lparr>Message := s\<rparr>
                   else e\<lparr>Details := s\<rparr>)
         | JNull \<Rightarrow> Some e
         | _ \<Rightarrow> None)
      else Some e)"

definition unmarshalError :: "string \<Rightarrow> string + Error" where
  "unmarshalError data =
     (case parseJSON data of
        None \<Rightarrow> Inl ''json: syntax error''
      | Some JNull \<Rightarrow> Inr \<lparr>Code = [], Message = [], Details = []\<rparr>
      | Some (JObject ms) \<Rightarrow>
          (case fold setErrorField ms (Some \<lparr>Code = [], Message = [], Details = []\<rparr>) of
             None \<Rightarrow> Inl ''json: cannot unmarshal into Go struct field of type string''
           | Some e \<Rightarrow> Inr e)
      | Some _ \<Rightarrow> Inl ''json: cannot unmarshal into Go value of type Error'')"

subsection \<open>Request validation and the instance\<close>

text \<open>The method must be a token (letters here), the context not nil, the URL free of
  control bytes.\<close>

definition newRequestErr :: "Context \<Rightarrow> string \<Rightarrow> string \<Rightarrow> string option" where
  "newRequestErr ctx method url =
     (if \<not> (\<forall>c\<in>set method. (CHR ''A'' \<le> c \<and> c \<le> CHR ''Z'') \<or> (CHR ''a'' \<le> c \<and> c \<le> CHR ''z''))
        then Some ''net/http: invalid method''
      else if ctx = 0 then Some ''net/http: nil Context''
      else if \<exists>c\<in>set url. c < CHR '' '' \<or> c = CHR 0x7F
        then Some ''net/url: invalid control character in URL''
      else None)"

text \<open>The placeholder for the digits of a float.\<close>

definition floatDigits :: "gvalue \<Rightarrow> string" where
  "floatDigits v = ''0''"

text \<open>\<open>stdlib srv\<close>: the library, with the network answering a request as \<open>srv\<close> does.\<close>

definition stdlib :: "(request \<Rightarrow> string + response) \<Rightarrow> golib" where
  "stdlib srv =
     \<lparr>json_Marshal = (\<lambda>v. case marshalValue floatDigits v of
                              None \<Rightarrow> Inl ''json: unsupported type''
                            | Some t \<Rightarrow> Inr t),
      Sprintf_v = printValue,
      Sprintf_g = (\<lambda>v. ''?''),
      json_Unmarshal_Error = unmarshalError,
      NewRequest_err = newRequestErr,
      client_Do = (\<lambda>hc. srv)\<rparr>"

section \<open>Notions used to state the properties\<close>

text \<open>A structured value: of kind struct, map, slice or array, directly or behind a non-nil
  pointer; \<open>pointee\<close> is the value that is then serialized.\<close>

definition pointee :: "gvalue \<Rightarrow> gvalue" where
  "pointee val = (if Kind val = reflect_Ptr then Elem val else val)"

definition structured :: "gvalue \<Rightarrow> bool" where
  "structured val =
     (isJSONKind (Kind val)
      \<or> (Kind val = reflect_Ptr \<and> \<not> IsNil val \<and> isJSONKind (Kind (Elem val))))"

text \<open>The canonical string of a primitive value (of a predeclared string, integer, unsigned
  integer, float or boolean type): the string itself, the decimal digits, the \<open>%g\<close>
  rendering, \<open>true\<close> or \<open>false\<close>. Other values have none.\<close>

fun canonicalText :: "golib \<Rightarrow> gvalue \<Rightarrow> string option" where
  "canonicalText lib (GString s) = Some s"
| "canonicalText lib (GInt i) = Some (Sprintf_d i)"
| "canonicalText lib (GUint n) = Some (Sprintf_u n)"
| "canonicalText lib (GFloat32 w) = Some (Sprintf_g lib (GFloat32 w))"
| "canonicalText lib (GFloat64 w) = Some (Sprintf_g lib (GFloat64 w))"
| "canonicalText lib (GBool b) = Some (FormatBool b)"
| "canonicalText lib _ = None"

section \<open>Example inputs\<close>

text \<open>The library with no network, and with a server that answers every request with a
  given status and body.\<close>

definition offline :: golib where
  "offline = stdlib (\<lambda>req. Inl ''dial tcp: connection refused'')"

definition apiServer :: "int \<Rightarrow> string \<Rightarrow> golib" where
  "apiServer status body = stdlib (\<lambda>req. Inr \<lparr>StatusCode = status, RespBody = Inr body\<rparr>)"

definition testClient :: BaseClient where
  "testClient = NewBaseClient ''test-api-key'' []"

definition visitorClient :: BaseClient where
  "visitorClient = NewBaseClient ''test-api-key'' [WithVisitorID ''test-visitor-123'']"

definition notFoundBody :: string where
  "notFoundBody = ''{\"code\":\"not_found\",\"message\":\"Company not found\"}''"

definition badGatewayBody :: string where
  "badGatewayBody = ''<html>502 Bad Gateway</html>''"

definition nilParams :: params where
  "nilParams = [(''search'', GString ''test''), (''page'', GNil), (''limit'', GNilPtr)]"

definition mixedParams :: params where
  "mixedParams = [(''search'', GString ''test''), (''page'', GInt 1), (''simplified'', GBool True),
                  (''fields'', GSlice [GString ''name'', GString ''domain''])]"

definition fieldsParams :: params where
  "fieldsParams = [(''searchFields'', GSlice [GString ''about.name'', GString ''domain.domain''])]"

section \<open>Verification\<close>

subsection \<open>Percent-encoding\<close>

lemma hex_table: "\<forall>k\<in>set [0..<16]. ishex (upperhex ! k) \<and> unhex (upperhex ! k) = k
   \<and> upperhex ! k \<noteq> CHR ''='' \<and> upperhex ! k \<noteq> CHR ''&''"
  by code_simp

lemma hex_digit:
  assumes "k < 16"
  shows "ishex (upperhex ! k)" "unhex (upperhex ! k) = k"
    "upperhex ! k \<noteq> CHR ''=''" "upperhex ! k \<noteq> CHR ''&''"
  using hex_table assms by auto

lemma of_char_lt_256: "of_char c < (256::nat)"
  by (cases c) (simp add: of_char_def)

lemma of_char_hi: "of_char c div 16 < (16::nat)"
  using of_char_lt_256[of c] by arith

lemma kept_char: "\<not> shouldEscape c \<Longrightarrow> c \<noteq> CHR ''%'' \<and> c \<noteq> CHR ''+'' \<and> c \<noteq> CHR ''='' \<and> c \<noteq> CHR ''&''"
  by (auto simp: shouldEscape_def)

lemma QueryUnescape_escapeByte:
  "QueryUnescape (escapeByte c @ r) = map_option ((#) c) (QueryUnescape r)"
proof (cases "shouldEscape c")
  case False
  then show ?thesis using kept_char[OF False] by (simp add: escapeByte_def)
next
  case True
  show ?thesis
  proof (cases "c = CHR '' ''")
    case True
    then show ?thesis by (simp add: escapeByte_def shouldEscape_def)
  next
    case False
    have hi: "of_char c div 16 < (16::nat)" by (rule of_char_hi)
    have lo: "of_char c mod 16 < (16::nat)" by simp
    have "char_of ((of_char c div 16) * 16 + of_char c mod 16 :: nat) = c"
      by simp
    with True False hi lo show ?thesis
      by (simp add: escapeByte_def hex_digit)
  qed
qed

lemma QueryUnescape_QueryEscape: "QueryUnescape (QueryEscape s) = Some s"
  by (induction s) (simp_all add: QueryEscape_def QueryUnescape_escapeByte)

lemma QueryEscape_inj: "QueryEscape s = QueryEscape t \<Longrightarrow> s = t"
  by (metis QueryUnescape_QueryEscape option.inject)

lemma escapeByte_no_sep: "CHR ''='' \<notin> set (escapeByte c)" "CHR ''&'' \<notin> set (escapeByte c)"
proof -
  have hi: "of_char c div 16 < (16::nat)" by (rule of_char_hi)
  have lo: "of_char c mod 16 < (16::nat)" by simp
  show "CHR ''='' \<notin> set (escapeByte c)" "CHR ''&'' \<notin> set (escapeByte c)"
    using hex_digit(3,4)[OF hi] hex_digit(3,4)[OF lo] kept_char[of c]
    by (auto simp: escapeByte_def)
qed

lemma QueryEscape_no_sep: "CHR ''='' \<notin> set (QueryEscape s)" "CHR ''&'' \<notin> set (QueryEscape s)"
  by (auto simp: QueryEscape_def escapeByte_no_sep)

subsection \<open>The sort of \<open>BuildQueryString\<close>\<close>

lemma length_sortInner [simp]: "length (sortInner i j parts) = length parts"
  by (induction i j parts rule: sortInner.induct) (subst sortInner.simps, simp)

lemma mset_sortInner: "i < length parts \<Longrightarrow> mset (sortInner i j parts) = mset parts"
proof (induction i j parts rule: sortInner.induct)
  case (1 i j parts)
  show ?case
  proof (cases "j < length parts")
    case True
    let ?next = "if partKey (parts ! i) > partKey (parts ! j)
                 then parts[i := parts ! j, j := parts ! i] else parts"
    have "mset ?next = mset parts"
      using True "1.prems" by (simp add: mset_swap)
    moreover have "mset (sortInner i (j + 1) ?next) = mset ?next"
      using "1.IH"[OF True] "1.prems" by simp
    ultimately show ?thesis
      using True by (subst sortInner.simps) simp
  next
    case False
    then show ?thesis by (subst sortInner.simps) simp
  qed
qed

lemma sortInner_inv:
  "i < j \<Longrightarrow> i < length parts \<Longrightarrow> keysBelow i parts \<Longrightarrow> minUpTo i j parts
   \<Longrightarrow> keysBelow (Suc i) (sortInner i j parts)"
proof (induction i j parts rule: sortInner.induct)
  case (1 i j parts)
  show ?case
  proof (cases "j < length parts")
    case False
    have "keysBelow (Suc i) parts"
      unfolding keysBelow_def
    proof (intro allI impI)
      fix a b assume ab: "a < b \<and> a < Suc i \<and> b < length parts"
      show "partKey (parts ! a) \<le> partKey (parts ! b)"
      proof (cases "a = i")
        case True
        then show ?thesis using ab False "1.prems"(4) by (simp add: minUpTo_def)
      next
        case False
        then show ?thesis using ab "1.prems"(3) by (simp add: keysBelow_def)
      qed
    qed
    then show ?thesis using False by (subst sortInner.simps) simp
  next
    case True
    let ?swap = "parts[i := parts ! j, j := parts ! i]"
    let ?next = "if partKey (parts ! i) > partKey (parts ! j) then ?swap else parts"
    have ij: "i < j" "i < length parts" by fact+
    have kb: "keysBelow i ?next"
    proof (cases "partKey (parts ! i) > partKey (parts ! j)")
      case False
      then show ?thesis using "1.prems"(3) by simp
    next
      case gt: True
      have "keysBelow i ?swap"
        unfolding keysBelow_def
      proof (intro allI impI)
        fix a b assume ab: "a < b \<and> a < i \<and> b < length ?swap"
        then have a: "?swap ! a = parts ! a" using ij by simp
        have "\<exists>b'. a < b' \<and> b' < length parts \<and> ?swap ! b = parts ! b'"
        proof (cases "b = j")
          case True
          then show ?thesis using ab ij \<open>j < length parts\<close> by (intro exI[of _ i]) simp
        next
          case bj: False
          show ?thesis
          proof (cases "b = i")
            case True
            then show ?thesis using ab ij \<open>j < length parts\<close> bj
              by (intro exI[of _ j]) simp
          next
            case False
            then show ?thesis using ab bj by (intro exI[of _ b]) simp
          qed
        qed
        then obtain b' where "a < b'" "b' < length parts" "?swap ! b = parts ! b'" by blast
        then show "partKey (?swap ! a) \<le> partKey (?swap ! b)"
          using a ab "1.prems"(3) by (simp add: keysBelow_def)
      qed
      with gt show ?thesis by simp
    qed
    have mu: "minUpTo i (j + 1) ?next"
    proof (cases "partKey (parts ! i) > partKey (parts ! j)")
      case False
      show ?thesis
        unfolding minUpTo_def
      proof (intro allI impI)
        fix m assume m: "i < m \<and> m < j + 1 \<and> m < length ?next"
        show "partKey (?next ! i) \<le> partKey (?next ! m)"
        proof (cases "m = j")
          case True then show ?thesis using False by simp
        next
          case mj: False
          then have "m < j" using m by simp
          then show ?thesis using False m "1.prems"(4) by (simp add: minUpTo_def)
        qed
      qed
    next
      case gt: True
      have "minUpTo i (j + 1) ?swap"
        unfolding minUpTo_def
      proof (intro allI impI)
        fix m assume m: "i < m \<and> m < j + 1 \<and> m < length ?swap"
        have si: "?swap ! i = parts ! j" using ij True by simp
        show "partKey (?swap ! i) \<le> partKey (?swap ! m)"
        proof (cases "m = j")
          case True
          then have "?swap ! m = parts ! i" using \<open>j < length parts\<close> by simp
          then show ?thesis using si gt by simp
        next
          case mj: False
          then have mlt: "m < j" using m by simp
          then have "?swap ! m = parts ! m" using m by simp
          moreover have "partKey (parts ! i) \<le> partKey (parts ! m)"
            using "1.prems"(4) m mlt by (simp add: minUpTo_def)
          ultimately show ?thesis using si gt by simp
        qed
      qed
      with gt show ?thesis by simp
    qed
    have "keysBelow (Suc i) (sortInner i (j + 1) ?next)"
      using "1.IH"[OF True] ij kb mu by simp
    then show ?thesis using True by (subst sortInner.simps) simp
  qed
qed

lemma length_sortOuter [simp]: "length (sortOuter i parts) = length parts"
  by (induction i parts rule: sortOuter.induct) (subst sortOuter.simps, simp)

lemma mset_sortOuter: "mset (sortOuter i parts) = mset parts"
  by (induction i parts rule: sortOuter.induct)
     (subst sortOuter.simps, simp add: mset_sortInner)

lemma sortOuter_inv:
  "keysBelow i parts \<Longrightarrow> keysBelow (length parts) (sortOuter i parts)"
proof (induction i parts rule: sortOuter.induct)
  case (1 i parts)
  show ?case
  proof (cases "i + 1 < length parts")
    case True
    have "keysBelow (Suc i) (sortInner i (i + 1) parts)"
      using True "1.prems" by (intro sortInner_inv) (auto simp: minUpTo_def)
    then have "keysBelow (length parts) (sortOuter (i + 1) (sortInner i (i + 1) parts))"
      using "1.IH"[OF True] by simp
    then show ?thesis using True by (subst sortOuter.simps) simp
  next
    case False
    have "keysBelow (length parts) parts"
      unfolding keysBelow_def
    proof (intro allI impI)
      fix a b assume "a < b \<and> a < length parts \<and> b < length parts"
      then have "a < b \<and> a < i \<and> b < length parts" using False by simp
      then show "partKey (parts ! a) \<le> partKey (parts ! b)"
        using "1.prems" by (simp add: keysBelow_def)
    qed
    then show ?thesis using False by (subst sortOuter.simps) simp
  qed
qed

lemma sorted_sortOuter: "sorted (map partKey (sortOuter 0 parts))"
proof -
  have "keysBelow (length parts) (sortOuter 0 parts)"
    by (rule sortOuter_inv) (simp add: keysBelow_def)
  then show ?thesis
    by (simp add: sorted_iff_nth_mono_less keysBelow_def)
qed

subsection \<open>The parts of the query string\<close>

lemma Split_not_Nil [simp]: "Split s c \<noteq> []"
  by (induction s) (auto split: list.splits)

lemma hd_Split: "hd (Split s c) = takeWhile (\<lambda>x. x \<noteq> c) s"
  by (induction s) (auto split: list.splits)

lemma partKey_takeWhile: "partKey part = takeWhile (\<lambda>x. x \<noteq> CHR ''='') part"
  by (simp add: partKey_def hd_Split)

lemma partKey_append: "CHR ''='' \<notin> set k \<Longrightarrow> partKey (k @ CHR ''='' # v) = k"
  by (induction k) (auto simp: partKey_takeWhile)

lemma partValue_append: "CHR ''='' \<notin> set k \<Longrightarrow> partValue (k @ CHR ''='' # v) = v"
  by (simp add: partValue_def partKey_append)

lemma Split_no_sep: "c \<notin> set p \<Longrightarrow> Split p c = [p]"
  by (induction p) auto

lemma Split_append: "c \<notin> set p \<Longrightarrow> Split (p @ c # r) c = p # Split r c"
  by (induction p) auto

lemma Split_Join:
  "parts \<noteq> [] \<Longrightarrow> \<forall>p\<in>set parts. CHR ''&'' \<notin> set p \<Longrightarrow> Split (Join parts ''&'') CHR ''&'' = parts"
proof (induction parts "''&''" rule: Join.induct)
  case 1
  then show ?case by simp
next
  case (2 p)
  then show ?case by (simp add: Split_no_sep)
next
  case (3 p q ps)
  then show ?case by (simp add: Split_append)
qed

lemma encodedValue_None_iff:
  "encodedValue lib val = None \<longleftrightarrow> Kind val = reflect_Ptr \<and> IsNil val"
  by (auto simp: encodedValue_def isJSONKind_def Let_def)

lemma rangeParams_eq:
  "rangeParams lib ps acc = acc @ map (entryPart lib) (filter (\<lambda>e. \<not> absent (snd e)) ps)"
proof (induction ps arbitrary: acc)
  case Nil
  then show ?case by simp
next
  case (Cons e ps)
  obtain key val where e: "e = (key, val)" by (cases e)
  show ?case
  proof (cases "absent val")
    case True
    then have "val = GNil \<or> encodedValue lib val = None"
      by (simp add: absent_def encodedValue_None_iff)
    then show ?thesis using True Cons.IH e by auto
  next
    case False
    then have "val \<noteq> GNil" and "encodedValue lib val \<noteq> None"
      by (simp_all add: absent_def encodedValue_None_iff)
    then show ?thesis using False Cons.IH e by (auto simp: entryPart_def)
  qed
qed

lemma encodedValue_escaped: "encodedValue lib val = Some e \<Longrightarrow> \<exists>t. e = QueryEscape t"
  by (cases val) (auto simp: encodedValue_def encodeStructured_def Let_def
      split: if_splits sum.splits)

lemma BuildQueryString_fst: "fst (BuildQueryString lib c ps) = Join (finalParts lib ps) ''&''"
  by (cases ps) (simp_all add: BuildQueryString_def finalParts_def Let_def)

lemma BuildQueryString_snd: "snd (BuildQueryString lib c ps) = c"
  by (simp add: BuildQueryString_def Let_def)

lemma mset_finalParts:
  "mset (finalParts lib ps) = mset (map (entryPart lib) (filter (\<lambda>e. \<not> absent (snd e)) ps))"
  by (simp add: finalParts_def Let_def mset_sortOuter rangeParams_eq)

lemma set_finalParts:
  "set (finalParts lib ps) = entryPart lib ` {e \<in> set ps. \<not> absent (snd e)}"
proof -
  have "set (finalParts lib ps) = set (map (entryPart lib) (filter (\<lambda>e. \<not> absent (snd e)) ps))"
    using mset_finalParts by (rule mset_eq_setD)
  then show ?thesis by auto
qed

lemma sorted_short: "length xs \<le> 1 \<Longrightarrow> sorted (map f xs)"
  by (cases xs) auto

lemma sorted_finalParts: "sorted (map partKey (finalParts lib ps))"
  by (simp add: finalParts_def Let_def sorted_sortOuter sorted_short)

lemma partKey_entryPart [simp]: "partKey (entryPart lib e) = QueryEscape (fst e)"
  by (simp add: entryPart_def partKey_append QueryEscape_no_sep)

lemma partValue_entryPart [simp]: "partValue (entryPart lib e) = the (encodedValue lib (snd e))"
  by (simp add: entryPart_def partValue_append QueryEscape_no_sep)

lemma entryPart_no_amp: "\<not> absent (snd e) \<Longrightarrow> CHR ''&'' \<notin> set (entryPart lib e)"
proof -
  assume "\<not> absent (snd e)"
  then have "encodedValue lib (snd e) \<noteq> None"
    by (simp add: absent_def encodedValue_None_iff)
  then obtain t where "encodedValue lib (snd e) = Some (QueryEscape t)"
    using encodedValue_escaped by fastforce
  then show ?thesis by (simp add: entryPart_def QueryEscape_no_sep)
qed

lemma entryPart_not_Nil [simp]: "entryPart lib e \<noteq> []"
  by (simp add: entryPart_def)

lemma finalParts_no_amp: "p \<in> set (finalParts lib ps) \<Longrightarrow> CHR ''&'' \<notin> set p \<and> p \<noteq> []"
  by (auto simp: set_finalParts entryPart_no_amp)

lemma distinct_keys_finalParts:
  assumes "distinct (map fst ps)"
  shows "distinct (map partKey (finalParts lib ps))"
proof -
  let ?es = "filter (\<lambda>e. \<not> absent (snd e)) ps"
  have "mset (map partKey (finalParts lib ps)) = mset (map partKey (map (entryPart lib) ?es))"
    using mset_finalParts[of lib ps] by (metis mset_map)
  also have "map partKey (map (entryPart lib) ?es) = map QueryEscape (map fst ?es)"
    by simp
  finally have eq: "mset (map partKey (finalParts lib ps)) = mset (map QueryEscape (map fst ?es))" .
  have "distinct (map fst ?es)"
    using assms by (rule distinct_map_filter)
  moreover have "inj_on QueryEscape (set (map fst ?es))"
    by (rule inj_onI) (rule QueryEscape_inj)
  ultimately have "distinct (map QueryEscape (map fst ?es))"
    using distinct_map[of QueryEscape "map fst ?es"] by blast
  then show ?thesis
    using eq mset_eq_imp_distinct_iff by blast
qed

lemma Join_not_Nil: "parts \<noteq> [] \<Longrightarrow> hd parts \<noteq> [] \<Longrightarrow> Join parts sep \<noteq> []"
  by (induction parts sep rule: Join.induct) auto

lemma queryPairs_BuildQueryString:
  "queryPairs (fst (BuildQueryString lib c ps))
     = map (\<lambda>part. (partKey part, partValue part)) (finalParts lib ps)"
proof (cases "finalParts lib ps = []")
  case True
  then show ?thesis by (simp add: BuildQueryString_fst queryPairs_def)
next
  case False
  then have "hd (finalParts lib ps) \<in> set (finalParts lib ps)" by simp
  then have "hd (finalParts lib ps) \<noteq> []" using finalParts_no_amp by blast
  then have "Join (finalParts lib ps) ''&'' \<noteq> []" using False by (rule Join_not_Nil[rotated])
  moreover have "Split (Join (finalParts lib ps) ''&'') CHR ''&'' = finalParts lib ps"
    using False finalParts_no_amp by (intro Split_Join) auto
  ultimately show ?thesis by (simp add: BuildQueryString_fst queryPairs_def)
qed

lemma set_queryPairs:
  "set (queryPairs (fst (BuildQueryString lib c ps)))
     = (\<lambda>e. (QueryEscape (fst e), the (encodedValue lib (snd e)))) ` {e \<in> set ps. \<not> absent (snd e)}"
  by (simp add: queryPairs_BuildQueryString set_finalParts image_image)

lemma keys_queryPairs:
  "map fst (queryPairs (fst (BuildQueryString lib c ps))) = map partKey (finalParts lib ps)"
  by (simp add: queryPairs_BuildQueryString comp_def)

subsection \<open>Entries and pairs\<close>

lemma mset_keys_finalParts:
  "mset (map partKey (finalParts lib ps))
     = mset (map (\<lambda>e. QueryEscape (fst e)) (filter (\<lambda>e. \<not> absent (snd e)) ps))"
proof -
  let ?es = "filter (\<lambda>e. \<not> absent (snd e)) ps"
  have "mset (map partKey (finalParts lib ps)) = mset (map partKey (map (entryPart lib) ?es))"
    using mset_finalParts[of lib ps] by (metis mset_map)
  then show ?thesis by (simp add: comp_def)
qed

lemma keys_sorted_escaped:
  "map fst (queryPairs (fst (BuildQueryString lib c ps)))
     = sort (map (\<lambda>e. QueryEscape (fst e)) (filter (\<lambda>e. \<not> absent (snd e)) ps))"
  by (simp only: keys_queryPairs)
     (rule properties_for_sort[symmetric, OF mset_keys_finalParts sorted_finalParts])

lemma distinct_keys_queryPairs:
  "distinct (map fst ps) \<Longrightarrow> distinct (map fst (queryPairs (fst (BuildQueryString lib c ps))))"
  by (simp add: keys_queryPairs distinct_keys_finalParts)

lemma present_pair:
  assumes "distinct (map fst ps)" and "(key, val) \<in> set ps" and "\<not> absent val"
  shows "map_of (queryPairs (fst (BuildQueryString lib c ps))) (QueryEscape key)
           = Some (the (encodedValue lib val))"
proof -
  have "(QueryEscape key, the (encodedValue lib val))
          \<in> set (queryPairs (fst (BuildQueryString lib c ps)))"
    using assms(2,3) by (force simp: set_queryPairs)
  then show ?thesis
    using distinct_keys_queryPairs[OF assms(1)] by (rule map_of_is_SomeI[rotated])
qed

lemma absent_key:
  assumes "distinct (map fst ps)" and "(key, val) \<in> set ps" and "absent val"
  shows "QueryEscape key \<notin> fst ` set (queryPairs (fst (BuildQueryString lib c ps)))"
proof
  assume "QueryEscape key \<in> fst ` set (queryPairs (fst (BuildQueryString lib c ps)))"
  then obtain e where e: "e \<in> set ps" "\<not> absent (snd e)" "QueryEscape (fst e) = QueryEscape key"
    by (auto simp: set_queryPairs)
  then have "fst e = key" by (simp add: QueryEscape_inj)
  then have "snd e = val"
    using assms(1,2) e(1) by (metis eq_key_imp_eq_value prod.collapse)
  then show False using e(2) assms(3) by simp
qed

subsection \<open>The paths through \<open>MakeRequest\<close>\<close>

lemma failed_sel [simp]:
  "ret_bytes (failed what e reqs c) = None"
  "ret_err (failed what e reqs c) = Some (Errorf (what @ e))"
  "issued (failed what e reqs c) = reqs"
  "receiver (failed what e reqs c) = c"
  by (simp_all add: failed_def)

lemma readResponse_frame [simp]:
  "issued (readResponse lib c req resp) = [req]"
  "receiver (readResponse lib c req resp) = c"
  by (simp_all add: readResponse_def split: sum.splits)

lemma MakeRequest_marshal_failure:
  "marshalBody lib body = Inl e \<Longrightarrow>
   MakeRequest lib c ctx method path body = failed ''failed to marshal request body: '' e [] c"
  by (simp add: MakeRequest_def)

lemma MakeRequest_create_failure:
  "marshalBody lib body = Inr reqBody \<Longrightarrow>
   NewRequestWithContext lib ctx method (baseURL c @ path) reqBody = Inl e \<Longrightarrow>
   MakeRequest lib c ctx method path body = failed ''failed to create request: '' e [] c"
  by (simp add: MakeRequest_def)

lemma MakeRequest_transport_failure:
  "marshalBody lib body = Inr reqBody \<Longrightarrow>
   NewRequestWithContext lib ctx method (baseURL c @ path) reqBody = Inr req0 \<Longrightarrow>
   client_Do lib (httpClient c) (setHeaders c body req0) = Inl e \<Longrightarrow>
   MakeRequest lib c ctx method path body
     = failed ''failed to execute request: '' e [setHeaders c body req0] c"
  by (simp add: MakeRequest_def)

lemma MakeRequest_response:
  "marshalBody lib body = Inr reqBody \<Longrightarrow>
   NewRequestWithContext lib ctx method (baseURL c @ path) reqBody = Inr req0 \<Longrightarrow>
   client_Do lib (httpClient c) (setHeaders c body req0) = Inr resp \<Longrightarrow>
   MakeRequest lib c ctx method path body = readResponse lib c (setHeaders c body req0) resp"
  by (simp add: MakeRequest_def)

text \<open>The four ways through \<open>MakeRequest\<close>.\<close>

lemma MakeRequest_cases:
  obtains
    (marshal) e where "marshalBody lib body = Inl e"
      "MakeRequest lib c ctx method path body = failed ''failed to marshal request body: '' e [] c"
  | (create) reqBody e where "marshalBody lib body = Inr reqBody"
      "NewRequestWithContext lib ctx method (baseURL c @ path) reqBody = Inl e"
      "MakeRequest lib c ctx method path body = failed ''failed to create request: '' e [] c"
  | (transport) reqBody req0 e where "marshalBody lib body = Inr reqBody"
      "NewRequestWithContext lib ctx method (baseURL c @ path) reqBody = Inr req0"
      "client_Do lib (httpClient c) (setHeaders c body req0) = Inl e"
      "MakeRequest lib c ctx method path body
         = failed ''failed to execute request: '' e [setHeaders c body req0] c"
  | (response) reqBody req0 resp where "marshalBody lib body = Inr reqBody"
      "NewRequestWithContext lib ctx method (baseURL c @ path) reqBody = Inr req0"
      "client_Do lib (httpClient c) (setHeaders c body req0) = Inr resp"
      "MakeRequest lib c ctx method path body = readResponse lib c (setHeaders c body req0) resp"
proof (cases "marshalBody lib body")
  case (Inl e)
  then show ?thesis using marshal MakeRequest_marshal_failure by blast
next
  case (Inr reqBody)
  note rb = this
  show ?thesis
  proof (cases "NewRequestWithContext lib ctx method (baseURL c @ path) reqBody")
    case (Inl e)
    then show ?thesis using create rb MakeRequest_create_failure by blast
  next
    case (Inr req0)
    note r0 = this
    show ?thesis
    proof (cases "client_Do lib (httpClient c) (setHeaders c body req0)")
      case (Inl e)
      then show ?thesis using transport rb r0 MakeRequest_transport_failure by blast
    next
      case (Inr resp)
      then show ?thesis using response rb r0 MakeRequest_response by blast
    qed
  qed
qed

lemma MakeRequest_receiver: "receiver (MakeRequest lib c ctx method path body) = c"
  by (cases rule: MakeRequest_cases[of lib body c ctx "method" "path"]) simp_all

lemma queryPath_eq:
  "queryPath lib c path queryParams =
     (if queryParams = [] \<or> fst (BuildQueryString lib c queryParams) = [] then path
      else path @ (if CHR ''?'' \<in> set path then ''&'' else ''?'')
             @ fst (BuildQueryString lib c queryParams), c)"
  using BuildQueryString_snd[of lib c queryParams]
  by (cases "BuildQueryString lib c queryParams") (auto simp: queryPath_def Contains_def)

lemma NewRequest_Header:
  "NewRequestWithContext lib ctx method url reqBody = Inr req0 \<Longrightarrow> Header req0 = Map.empty"
  by (auto simp: NewRequestWithContext_def split: option.splits)

lemma setHeaders_Header:
  assumes "Header req0 = Map.empty"
  shows "Header (setHeaders c body req0) ''Authorization'' = Some [''Basic '' @ apiKey c]"
    and "Header (setHeaders c body req0) ''Tca-Visitor-Id''
           = (if visitorID c \<noteq> [] then Some [visitorID c] else None)"
  using assms by (simp_all add: setHeaders_def Header_Set_def Let_def)

lemma hd_single: "length xs = 1 \<Longrightarrow> hd xs \<in> set xs"
  by (cases xs) simp_all

lemma MakeRequestWithQuery_receiver:
  "receiver (MakeRequestWithQuery lib c ctx method path ps body) = c"
  by (simp add: MakeRequestWithQuery_def queryPath_eq MakeRequest_receiver)

lemma marshalBody_Inl_iff:
  "marshalBody lib body = Inl e \<longleftrightarrow> body \<noteq> GNil \<and> json_Marshal lib body = Inl e"
  by (auto simp: marshalBody_def split: sum.splits if_splits)

lemma NewRequest_Inl_iff:
  "NewRequestWithContext lib ctx method url reqBody = Inl e
     \<longleftrightarrow> NewRequest_err lib ctx method url = Some e"
  by (auto simp: NewRequestWithContext_def split: option.splits)

lemma readResponse_error:
  "StatusCode resp \<ge> 400 \<Longrightarrow>
   ret_bytes (readResponse lib c req resp) = None \<and> ret_err (readResponse lib c req resp) \<noteq> None"
  by (simp add: readResponse_def split: sum.splits)

lemma MakeRequest_response_of_issued:
  assumes "issued (MakeRequest lib c ctx method path body) = [req]"
    and "client_Do lib (httpClient c) req = Inr resp"
  shows "MakeRequest lib c ctx method path body = readResponse lib c req resp"
  using assms by (cases rule: MakeRequest_cases[of lib body c ctx "method" "path"]) auto

subsection \<open>The cases of \<open>TestBuildQueryString\<close>\<close>

text \<open>The model returns what \<open>client_test.go\<close> expects of the code, case by case.\<close>

lemma test_empty_params: "fst (BuildQueryString offline testClient []) = []"
  by code_simp

lemma test_simple_string:
  "fst (BuildQueryString offline testClient [(''search'', GString ''technology'')])
     = ''search=technology''"
  by code_simp

lemma test_simple_numbers:
  "fst (BuildQueryString offline testClient [(''size'', GInt 25), (''page'', GInt 1)])
     = ''page=1&size=25''"
  by code_simp

lemma test_boolean_value:
  "fst (BuildQueryString offline testClient [(''simplified'', GBool True)]) = ''simplified=true''"
  by code_simp

lemma test_array:
  "fst (BuildQueryString offline testClient fieldsParams)
     = ''searchFields=%5B%22about.name%22%2C%22domain.domain%22%5D''"
  by code_simp

lemma test_object:
  "fst (BuildQueryString offline testClient
          [(''query'', GMap [(GString ''attribute'', GString ''about.industries''),
                             (GString ''sign'', GString ''equals''),
                             (GString ''values'', GSlice [GString ''technology''])])])
     = ''query=%7B%22attribute%22%3A%22about.industries%22%2C%22sign%22%3A%22equals%22%2C%22values%22%3A%5B%22technology%22%5D%7D''"
  by code_simp

lemma test_mixed_types:
  "fst (BuildQueryString offline testClient mixedParams)
     = ''fields=%5B%22name%22%2C%22domain%22%5D&page=1&search=test&simplified=true''"
  by code_simp

lemma test_nil_values_skipped:
  "fst (BuildQueryString offline testClient [(''search'', GString ''test''), (''page'', GNil)])
     = ''search=test''"
  by code_simp

text \<open>A nil slice is not a nil interface value: its entry is kept and reads \<open>null\<close>. The
  order of the pairs is that of the escaped keys.\<close>

lemma example_nil_slice:
  "fst (BuildQueryString offline testClient [(''tags'', GNilSlice)]) = ''tags=null''"
  by code_simp

lemma example_escaped_key_order:
  "fst (BuildQueryString offline testClient [(''a b'', GInt 1), (''a!b'', GInt 2)])
     = ''a%21b=2&a+b=1''"
  by code_simp

subsection \<open>The other cases of \<open>client_test.go\<close>\<close>

lemma test_new_base_client:
  "fst (BaseURL (NewBaseClient ''test-api-key'' [])) = DefaultBaseURL
   \<and> Timeout (fst (HTTPClient (NewBaseClient ''test-api-key'' []))) = DefaultTimeout"
  by code_simp

lemma test_base_client_configuration:
  "fst (BaseURL (NewBaseClient ''test-api-key''
          [WithCustomBaseURL ''https://custom-api.example.com'', WithTimeout (60 * 1000000000),
           WithCustomHTTPClient \<lparr>Timeout = 10 * 1000000000, Transport = Some 1\<rparr>,
           WithVisitorID ''test-visitor-123'']))
     = ''https://custom-api.example.com''
   \<and> fst (HTTPClient (NewBaseClient ''test-api-key''
          [WithCustomBaseURL ''https://custom-api.example.com'', WithTimeout (60 * 1000000000),
           WithCustomHTTPClient \<lparr>Timeout = 10 * 1000000000, Transport = Some 1\<rparr>,
           WithVisitorID ''test-visitor-123'']))
     = \<lparr>Timeout = 10 * 1000000000, Transport = Some 1\<rparr>"
  by code_simp

lemma test_error_type:
  "Error_Error \<lparr>Code = ''test_error'', Message = ''Test error message'',
                Details = ''Additional details''\<rparr>
     = ''test_error: Test error message (Additional details)''
   \<and> Error_Error \<lparr>Code = ''test_error'', Message = ''Test error message'', Details = []\<rparr>
     = ''test_error: Test error message''"
  by code_simp

lemma test_constants:
  "DefaultBaseURL = ''https://api.thecompaniesapi.com'' \<and> DefaultTimeout = 300 * 1000000000"
  by code_simp

subsection \<open>Number literals\<close>

lemma prepend_Some [simp]: "prepend t (Some (u, r)) = Some (t @ u, r)"
  by (simp add: prepend_def)

lemma prepend_None [simp]: "prepend t None = None"
  by (simp add: prepend_def)

lemma prepend_eq_Some:
  "prepend t x = Some (v, r) \<longleftrightarrow> (\<exists>u. x = Some (u, r) \<and> v = t @ u)"
  by (cases x) (auto simp: prepend_def)

lemma delimited_not_digit: "delimited rest \<Longrightarrow> takeWhile isDigit rest = [] \<and> dropWhile isDigit rest = rest"
  by (cases rest) (auto simp: delimited_def isDigit_def)

lemma parseDigits_frame:
  assumes "parseDigits s = Some (t, r)" and "delimited rest"
  shows "parseDigits (s @ rest) = Some (t, r @ rest)"
proof (cases "\<forall>x\<in>set s. isDigit x")
  case True
  have 1: "takeWhile isDigit s = s" and 2: "dropWhile isDigit s = []"
    using True by (simp_all add: takeWhile_eq_all_conv)
  have 3: "takeWhile isDigit (s @ rest) = s" and 4: "dropWhile isDigit (s @ rest) = rest"
    using True delimited_not_digit[OF assms(2)] by (simp_all add: takeWhile_append2 dropWhile_append2)
  have "s \<noteq> []" "t = s" "r = []"
    using assms(1) unfolding parseDigits_def 1 2 by (auto split: if_splits)
  then show ?thesis unfolding parseDigits_def 3 4 by simp
next
  case False
  then obtain x where "x \<in> set s" "\<not> isDigit x" by blast
  then have 3: "takeWhile isDigit (s @ rest) = takeWhile isDigit s"
    and 4: "dropWhile isDigit (s @ rest) = dropWhile isDigit s @ rest"
    by (simp_all add: takeWhile_append1 dropWhile_append1)
  show ?thesis using assms(1) unfolding parseDigits_def 3 4 by (auto split: if_splits)
qed

lemma framedD: "framed p \<Longrightarrow> p s = Some (t, r) \<Longrightarrow> delimited rest \<Longrightarrow> p (s @ rest) = Some (t, r @ rest)"
  by (simp add: framed_def)

lemma framed_parseDigits: "framed parseDigits"
  by (simp add: framed_def parseDigits_frame)

lemma framed_prepend: "framed p \<Longrightarrow> framed (\<lambda>s. prepend t (p s))"
  by (auto simp: framed_def prepend_eq_Some)

lemma delimited_hd: "delimited rest \<Longrightarrow> rest = [] \<or> (\<exists>c r. rest = c # r \<and> (c = CHR '','' \<or> c = CHR '']'' \<or> c = CHR ''}''))"
  by (cases rest) (auto simp: delimited_def)

lemma framed_parseSign: "framed parseSign"
  unfolding framed_def
proof (intro allI impI)
  fix s t r rest assume a: "parseSign s = Some (t, r) \<and> delimited rest"
  show "parseSign (s @ rest) = Some (t, r @ rest)"
  proof (cases s)
    case Nil
    then show ?thesis using a delimited_hd[of rest] by (auto simp: parseSign_def)
  next
    case (Cons c s')
    then show ?thesis using a by (auto simp: parseSign_def split: if_splits)
  qed
qed

lemma framed_parseInt: "framed parseInt"
  unfolding framed_def
proof (intro allI impI)
  fix s t r rest assume a: "parseInt s = Some (t, r) \<and> delimited rest"
  show "parseInt (s @ rest) = Some (t, r @ rest)"
  proof (cases s)
    case Nil
    then show ?thesis using a by (simp add: parseInt_def)
  next
    case (Cons c s')
    show ?thesis
    proof (cases "c = CHR ''0''")
      case True
      then show ?thesis using a Cons by (auto simp: parseInt_def)
    next
      case False
      then have "parseDigits s = Some (t, r)" using a Cons by (simp add: parseInt_def)
      then have "parseDigits (s @ rest) = Some (t, r @ rest)" using a parseDigits_frame by blast
      then show ?thesis using False Cons by (simp add: parseInt_def)
    qed
  qed
qed

lemma framed_parseFrac: "framed parseFrac"
  unfolding framed_def
proof (intro allI impI)
  fix s t r rest assume a: "parseFrac s = Some (t, r) \<and> delimited rest"
  show "parseFrac (s @ rest) = Some (t, r @ rest)"
  proof (cases s)
    case Nil
    then show ?thesis using a delimited_hd[of rest] by (auto simp: parseFrac_def)
  next
    case (Cons c s')
    show ?thesis
    proof (cases "c = CHR ''.''")
      case True
      then obtain u where "parseDigits s' = Some (u, r)" "t = ''.'' @ u"
        using a Cons by (auto simp: parseFrac_def prepend_eq_Some)
      then show ?thesis using True Cons a parseDigits_frame[of s' u r rest]
        by (simp add: parseFrac_def)
    next
      case False
      then show ?thesis using a Cons by (auto simp: parseFrac_def)
    qed
  qed
qed

lemma framed_parseExp: "framed parseExp"
  unfolding framed_def
proof (intro allI impI)
  fix s t r rest assume a: "parseExp s = Some (t, r) \<and> delimited rest"
  show "parseExp (s @ rest) = Some (t, r @ rest)"
  proof (cases s)
    case Nil
    then show ?thesis using a delimited_hd[of rest] by (auto simp: parseExp_def)
  next
    case (Cons c s')
    show ?thesis
    proof (cases "c = CHR ''e'' \<or> c = CHR ''E''")
      case False
      then show ?thesis using a Cons by (auto simp: parseExp_def)
    next
      case True
      show ?thesis
      proof (cases s')
        case Nil
        then show ?thesis using a Cons True by (auto simp: parseExp_def)
      next
        case (Cons g s'')
        show ?thesis
        proof (cases "g = CHR ''+'' \<or> g = CHR ''-''")
          case sg: True
          then obtain u where "parseDigits s'' = Some (u, r)" "t = [c, g] @ u"
            using a \<open>s = c # s'\<close> Cons True by (auto simp: parseExp_def prepend_eq_Some)
          then show ?thesis
            using sg True \<open>s = c # s'\<close> Cons a parseDigits_frame[of s'' u r rest]
            by (auto simp: parseExp_def)
        next
          case nsg: False
          then obtain u where "parseDigits s' = Some (u, r)" "t = [c] @ u"
            using a \<open>s = c # s'\<close> Cons True by (auto simp: parseExp_def prepend_eq_Some)
          then show ?thesis
            using nsg True \<open>s = c # s'\<close> Cons a parseDigits_frame[of s' u r rest]
            by (auto simp: parseExp_def)
        qed
      qed
    qed
  qed
qed

lemma framed_andThen:
  assumes "framed p" and "framed q"
  shows "framed (andThen p q)"
  unfolding framed_def
proof (intro allI impI)
  fix s t r rest assume a: "andThen p q s = Some (t, r) \<and> delimited rest"
  then obtain t1 r1 u where 1: "p s = Some (t1, r1)" and 2: "q r1 = Some (u, r)" and 3: "t = t1 @ u"
    by (auto simp: andThen_def prepend_eq_Some split: option.splits)
  have "p (s @ rest) = Some (t1, r1 @ rest)" using framedD[OF assms(1) 1] a by simp
  moreover have "q (r1 @ rest) = Some (u, r @ rest)" using framedD[OF assms(2) 2] a by simp
  ultimately show "andThen p q (s @ rest) = Some (t, r @ rest)"
    using 3 by (simp add: andThen_def)
qed

lemma framed_parseNumber: "framed parseNumber"
  unfolding parseNumber_def
  by (intro framed_andThen framed_parseSign framed_parseInt framed_parseFrac framed_parseExp)

lemma numberLiteral_frame:
  "numberLiteral t \<Longrightarrow> delimited rest \<Longrightarrow> parseNumber (t @ rest) = Some (t, rest)"
  using framedD[OF framed_parseNumber, of t t "[]" rest] by (simp add: numberLiteral_def)

lemma digit_table:
  "\<forall>k\<in>set [0..<10]. isDigit (''0123456789'' ! k) \<and> (k \<noteq> 0 \<longrightarrow> ''0123456789'' ! k \<noteq> CHR ''0'')"
  by code_simp

lemma digit_isDigit: "k < 10 \<Longrightarrow> isDigit (''0123456789'' ! k)"
  using digit_table by simp

lemma digit_nonzero: "k < 10 \<Longrightarrow> k \<noteq> 0 \<Longrightarrow> ''0123456789'' ! k \<noteq> CHR ''0''"
  using digit_table by simp

lemma decimal_small: "n < 10 \<Longrightarrow> decimal n = [''0123456789'' ! n]"
  by (subst decimal.simps) (simp del: decimal.simps)

lemma decimal_large: "\<not> n < 10 \<Longrightarrow> decimal n = decimal (n div 10) @ [''0123456789'' ! (n mod 10)]"
  by (subst decimal.simps) (simp del: decimal.simps)

lemma decimal_digits:
  "decimal n \<noteq> [] \<and> (\<forall>c\<in>set (decimal n). isDigit c) \<and> (hd (decimal n) = CHR ''0'' \<longrightarrow> n = 0)"
proof (induction n rule: decimal.induct)
  case (1 n)
  show ?case
  proof (cases "n < 10")
    case True
    have "''0123456789'' ! n = CHR ''0'' \<Longrightarrow> n = 0" using digit_nonzero[OF True] by blast
    then show ?thesis unfolding decimal_small[OF True] using digit_isDigit[OF True]
      by (simp del: decimal.simps)
  next
    case False
    have ih: "decimal (n div 10) \<noteq> [] \<and> (\<forall>c\<in>set (decimal (n div 10)). isDigit c) \<and>
      (hd (decimal (n div 10)) = CHR ''0'' \<longrightarrow> n div 10 = 0)"
      using 1 False by (simp del: decimal.simps)
    have nz: "n div 10 \<noteq> 0" using False by simp
    have m: "n mod 10 < 10" by simp
    have h: "hd (decimal (n div 10) @ [''0123456789'' ! (n mod 10)]) = hd (decimal (n div 10))"
      using ih by (simp del: decimal.simps)
    show ?thesis unfolding decimal_large[OF False] h using ih nz digit_isDigit[OF m]
      by (simp del: decimal.simps)
  qed
qed

lemma decimal_zero: "decimal 0 = ''0''"
  by (subst decimal.simps) (simp del: decimal.simps)

lemma isDigit_not_minus: "isDigit c \<Longrightarrow> c \<noteq> CHR ''-''"
  by (auto simp: isDigit_def)

lemma numberLiteral_decimal: "numberLiteral (decimal n)"
proof -
  obtain c r where cr: "decimal n = c # r" using decimal_digits[of n] by (cases "decimal n") (simp_all del: decimal.simps)
  have dig: "\<forall>x\<in>set (c # r). isDigit x" using decimal_digits[of n] cr by (simp del: decimal.simps)
  have sign: "parseSign (c # r) = Some ([], c # r)"
    using dig isDigit_not_minus[of c] by (simp add: parseSign_def)
  have int: "parseInt (c # r) = Some (c # r, [])"
  proof (cases "c = CHR ''0''")
    case True
    then have "n = 0" using decimal_digits[of n] cr by (simp del: decimal.simps)
    then have "r = []" using cr decimal_zero by (simp del: decimal.simps)
    then show ?thesis using True by (simp add: parseInt_def)
  next
    case False
    have "takeWhile isDigit (c # r) = c # r" "dropWhile isDigit (c # r) = []"
      using dig by (simp_all add: takeWhile_eq_all_conv)
    then have "parseDigits (c # r) = Some (c # r, [])" unfolding parseDigits_def by simp
    then show ?thesis using False by (simp add: parseInt_def)
  qed
  show ?thesis unfolding numberLiteral_def cr parseNumber_def
    by (simp add: andThen_def sign int parseFrac_def parseExp_def)
qed

lemma numberLiteral_minus_decimal: "numberLiteral (CHR ''-'' # decimal n)"
proof -
  obtain c r where cr: "decimal n = c # r" using decimal_digits[of n] by (cases "decimal n") (simp_all del: decimal.simps)
  have dig: "\<forall>x\<in>set (c # r). isDigit x" using decimal_digits[of n] cr by (simp del: decimal.simps)
  have int: "parseInt (c # r) = Some (c # r, [])"
  proof (cases "c = CHR ''0''")
    case True
    then have "n = 0" using decimal_digits[of n] cr by (simp del: decimal.simps)
    then have "r = []" using cr decimal_zero by (simp del: decimal.simps)
    then show ?thesis using True by (simp add: parseInt_def)
  next
    case False
    have "takeWhile isDigit (c # r) = c # r" "dropWhile isDigit (c # r) = []"
      using dig by (simp_all add: takeWhile_eq_all_conv)
    then have "parseDigits (c # r) = Some (c # r, [])" unfolding parseDigits_def by simp
    then show ?thesis using False by (simp add: parseInt_def)
  qed
  show ?thesis unfolding numberLiteral_def cr parseNumber_def
    by (simp add: andThen_def parseSign_def int parseFrac_def parseExp_def)
qed

lemma numberLiteral_Sprintf_d: "numberLiteral (Sprintf_d i)"
  by (simp add: Sprintf_d_def numberLiteral_decimal numberLiteral_minus_decimal del: decimal.simps)

lemma numberLiteral_Sprintf_u: "numberLiteral (Sprintf_u n)"
  by (simp add: Sprintf_u_def numberLiteral_decimal del: decimal.simps)

lemma numberLiteral_start:
  assumes "numberLiteral t"
  shows "t \<noteq> [] \<and> (hd t = CHR ''-'' \<or> isDigit (hd t))"
proof (cases t)
  case Nil
  then show ?thesis using assms
    by (simp add: numberLiteral_def parseNumber_def andThen_def parseSign_def parseInt_def)
next
  case (Cons c r)
  show ?thesis
  proof (cases "c = CHR ''-''")
    case True then show ?thesis using Cons by simp
  next
    case False
    then have "parseSign t = Some ([], t)" using Cons by (simp add: parseSign_def)
    then have "parseInt t \<noteq> None" using assms
      by (auto simp: numberLiteral_def parseNumber_def andThen_def split: option.splits)
    then have "c = CHR ''0'' \<or> takeWhile isDigit (c # r) \<noteq> []"
      using Cons by (auto simp: parseInt_def parseDigits_def split: if_splits)
    then have "isDigit c" by (auto simp: isDigit_def split: if_splits)
    then show ?thesis using Cons by simp
  qed
qed

subsection \<open>Runes\<close>

lemma runeShape_size: "fst (runeShape b) = 0 \<or> fst (runeShape b) = 2 \<or> fst (runeShape b) = 3 \<or> fst (runeShape b) = 4"
  by (simp add: runeShape_def)

lemma runeSize_Nil: "runeSize [] = 0"
  by (simp add: runeSize_def)

lemma runeSize_ascii: "b < CHR 0x80 \<Longrightarrow> runeSize (b # r) = 1"
  by (simp add: runeSize_def)

lemma runeSize_le: "runeSize s \<le> length s"
  by (cases s) (auto simp: runeSize_def split: prod.splits)

lemma runeSize_cases:
  assumes "runeSize (b # r) = n" and "0 < n"
  obtains (ascii) "b < CHR 0x80" "n = 1"
  | (two) c1 r' where "\<not> b < CHR 0x80" "n = 2" "r = c1 # r'"
  | (three) c1 c2 r' where "\<not> b < CHR 0x80" "n = 3" "r = c1 # c2 # r'"
  | (four) c1 c2 c3 r' where "\<not> b < CHR 0x80" "n = 4" "r = c1 # c2 # c3 # r'"
proof (cases "b < CHR 0x80")
  case True
  then show ?thesis using assms ascii by (simp add: runeSize_def)
next
  case False
  obtain m lo hi where sh: "runeShape b = (m, lo, hi)" by (cases "runeShape b") auto
  have nm: "n = m" and len: "m \<le> Suc (length r)"
    using assms False sh by (auto simp: runeSize_def split: if_splits)
  have "m = 0 \<or> m = 2 \<or> m = 3 \<or> m = 4" using runeShape_size[of b] sh by simp
  then consider "m = 2" | "m = 3" | "m = 4" using nm assms(2) by auto
  then show ?thesis
  proof cases
    case 1
    then obtain c1 r' where "r = c1 # r'" using len by (cases r) auto
    then show ?thesis using two False nm 1 by simp
  next
    case 2
    then obtain c1 c2 r' where "r = c1 # c2 # r'" using len by (cases r; cases "tl r") auto
    then show ?thesis using three False nm 2 by simp
  next
    case 3
    then obtain c1 c2 c3 r' where "r = c1 # c2 # c3 # r'"
      using len by (cases r; cases "tl r"; cases "tl (tl r)") auto
    then show ?thesis using four False nm 3 by simp
  qed
qed

lemma runeSize_take:
  assumes "runeSize s = n" and "0 < n"
  shows "runeSize (take n s @ X) = n"
proof (cases s)
  case Nil
  then show ?thesis using assms by (simp add: runeSize_def)
next
  case (Cons b r)
  from assms[unfolded Cons] show ?thesis
  proof (cases rule: runeSize_cases)
    case ascii
    then show ?thesis using Cons by (simp add: runeSize_def)
  next
    case (two c1 r')
    then show ?thesis using Cons assms by (auto simp: runeSize_def split: prod.splits if_splits)
  next
    case (three c1 c2 r')
    then show ?thesis using Cons assms by (auto simp: runeSize_def split: prod.splits if_splits)
  next
    case (four c1 c2 c3 r')
    then show ?thesis using Cons assms
      by (auto simp: runeSize_def numeral_2_eq_2 split: prod.splits if_splits)
  qed
qed

lemma runeSize_single: "runeSize (b # r) = 0 \<Longrightarrow> runeSize [b] = 0"
  using runeShape_size[of b]
  by (cases "runeShape b") (auto simp: runeSize_def split: if_splits)

lemma runeSize_high: "1 < runeSize (b # r) \<Longrightarrow> CHR 0x80 \<le> b"
  by (auto simp: runeSize_def split: if_splits)

lemma runeSize_zero_high: "runeSize (b # r) = 0 \<Longrightarrow> CHR 0x80 \<le> b"
  by (auto simp: runeSize_def split: if_splits)

lemma runes_Nil: "runes [] = []"
  by (subst runes.simps) simp

lemma runes_Cons:
  "s \<noteq> [] \<Longrightarrow> runes s = take (max 1 (runeSize s)) s # runes (drop (max 1 (runeSize s)) s)"
  by (subst runes.simps) simp

lemma isRune_head:
  assumes "s \<noteq> []"
  shows "isRune (take (max 1 (runeSize s)) s)"
proof (cases "runeSize s = 0")
  case True
  obtain b r where s: "s = b # r" using assms by (cases s) auto
  have "runeSize [b] = 0" using True s runeSize_single by blast
  then show ?thesis using True s by (simp add: isRune_def)
next
  case False
  then have "runeSize (take (runeSize s) s) = runeSize s"
    using runeSize_take[of s "runeSize s" "[]"] by simp
  moreover have "length (take (runeSize s) s) = runeSize s" using runeSize_le[of s] by simp
  moreover have "max 1 (runeSize s) = runeSize s" using False by simp
  ultimately show ?thesis using assms False by (simp add: isRune_def)
qed

lemma isRune_runes: "r \<in> set (runes s) \<Longrightarrow> isRune r"
proof (induction s rule: runes.induct)
  case (1 s)
  show ?case
  proof (cases "s = []")
    case True
    then show ?thesis using 1 by (simp add: runes_Nil)
  next
    case False
    then show ?thesis using 1 isRune_head[OF False] by (auto simp: runes_Cons[OF False])
  qed
qed

lemma concat_runes: "concat (runes s) = s"
proof (induction s rule: runes.induct)
  case (1 s)
  show ?case
  proof (cases "s = []")
    case True
    then show ?thesis by (simp add: runes_Nil)
  next
    case False
    then show ?thesis using 1 by (simp add: runes_Cons[OF False])
  qed
qed

lemma coerceUTF8_valid: "validUTF8 s \<Longrightarrow> coerceUTF8 s = s"
proof -
  assume "validUTF8 s"
  then have "map (\<lambda>r. if runeSize r = 0 then replacement else r) (runes s) = runes s"
    unfolding validUTF8_def by (intro map_idI) auto
  then show ?thesis by (simp add: coerceUTF8_def concat_runes)
qed

subsection \<open>String literals\<close>

lemma hex_digits:
  "\<forall>k\<in>set [0..<16]. ishex (lowerhex ! k) \<and> unhex (lowerhex ! k) = k"
  by code_simp

lemma ishex_lowerhex: "k < 16 \<Longrightarrow> ishex (lowerhex ! k)"
  using hex_digits by simp

lemma unhex_lowerhex: "k < 16 \<Longrightarrow> unhex (lowerhex ! k) = k"
  using hex_digits by simp

lemma getu4_Cons:
  "getu4 (CHR 0x5C # CHR ''u'' # h1 # h2 # h3 # h4 # X)
     = (if ishex h1 \<and> ishex h2 \<and> ishex h3 \<and> ishex h4
        then Some (((unhex h1 * 16 + unhex h2) * 16 + unhex h3) * 16 + unhex h4) else None)"
  by (simp add: getu4_def)

lemma parseString_quote: "parseString (CHR 0x22 # r) = Some ([], r)"
  by (subst parseString.simps) simp

lemma parseString_letter:
  "e \<noteq> CHR ''u'' \<Longrightarrow> unescapeLetter e = Some d
   \<Longrightarrow> parseString (CHR 0x5C # e # X) = prepend [d] (parseString X)"
  by (subst parseString.simps) simp

lemma parseString_u4:
  assumes "getu4 (CHR 0x5C # CHR ''u'' # h1 # h2 # h3 # h4 # X) = Some n"
    and "\<not> (55296 \<le> n \<and> n < 57344)"
  shows "parseString (CHR 0x5C # CHR ''u'' # h1 # h2 # h3 # h4 # X) = prepend (utf8 n) (parseString X)"
  by (subst parseString.simps) (simp add: assms)

lemma parseString_raw:
  assumes "c \<noteq> CHR 0x22" and "c \<noteq> CHR 0x5C" and "\<not> c < CHR '' ''" and "runeSize (c # r) = n" and "0 < n"
  shows "parseString (c # r) = prepend (take n (c # r)) (parseString (drop n (c # r)))"
  by (subst parseString.simps) (use assms in simp)

lemma ufffd: "getu4 (CHR 0x5C # CHR ''u'' # CHR ''f'' # CHR ''f'' # CHR ''f'' # CHR ''d'' # X) = Some 65533"
  unfolding getu4_Cons by (simp add: ishex_def unhex_def)

lemma u2028: "getu4 (CHR 0x5C # CHR ''u'' # CHR ''2'' # CHR ''0'' # CHR ''2'' # CHR ''8'' # X) = Some 8232"
  unfolding getu4_Cons by (simp add: ishex_def unhex_def)

lemma u2029: "getu4 (CHR 0x5C # CHR ''u'' # CHR ''2'' # CHR ''0'' # CHR ''2'' # CHR ''9'' # X) = Some 8233"
  unfolding getu4_Cons by (simp add: ishex_def unhex_def)

lemma utf8_fffd: "utf8 65533 = replacement"
  by (simp add: utf8_def replacement_def char_of_eq_iff)

lemma utf8_2028: "utf8 8232 = [CHR 0xE2, CHR 0x80, CHR 0xA8]"
  by (simp add: utf8_def char_of_eq_iff)

lemma utf8_2029: "utf8 8233 = [CHR 0xE2, CHR 0x80, CHR 0xA9]"
  by (simp add: utf8_def char_of_eq_iff)

lemma utf8_ascii: "c < CHR 0x80 \<Longrightarrow> utf8 (of_char c) = [c]"
  by (simp add: utf8_def less_char_def)

lemma parse_invalid:
  "runeSize r = 0 \<Longrightarrow> parseString (jsonEscapeRune r @ X) = prepend replacement (parseString X)"
  using parseString_u4[OF ufffd, of X] by (simp add: jsonEscapeRune_def utf8_fffd)

lemma parse_2028:
  "parseString (jsonEscapeRune [CHR 0xE2, CHR 0x80, CHR 0xA8] @ X)
     = prepend [CHR 0xE2, CHR 0x80, CHR 0xA8] (parseString X)"
proof -
  have "runeSize [CHR 0xE2, CHR 0x80, CHR 0xA8] = 3" by code_simp
  then show ?thesis
    using parseString_u4[OF u2028, of X] by (simp add: jsonEscapeRune_def utf8_2028)
qed

lemma parse_2029:
  "parseString (jsonEscapeRune [CHR 0xE2, CHR 0x80, CHR 0xA9] @ X)
     = prepend [CHR 0xE2, CHR 0x80, CHR 0xA9] (parseString X)"
proof -
  have "runeSize [CHR 0xE2, CHR 0x80, CHR 0xA9] = 3" by code_simp
  then show ?thesis
    using parseString_u4[OF u2029, of X] by (simp add: jsonEscapeRune_def utf8_2029)
qed

lemma unescape_facts:
  "unescapeLetter (CHR 0x22) = Some (CHR 0x22)" "unescapeLetter (CHR 0x5C) = Some (CHR 0x5C)"
  "unescapeLetter (CHR ''b'') = Some (CHR 0x08)" "unescapeLetter (CHR ''f'') = Some (CHR 0x0C)"
  "unescapeLetter (CHR ''n'') = Some (CHR 0x0A)" "unescapeLetter (CHR ''r'') = Some (CHR 0x0D)"
  "unescapeLetter (CHR ''t'') = Some (CHR 0x09)"
  by (simp_all add: unescapeLetter_def)

lemma getu4_byte:
  "getu4 (CHR 0x5C # CHR ''u'' # CHR ''0'' # CHR ''0'' # lowerhex ! (of_char c div 16) # lowerhex ! (of_char c mod 16) # X)
     = Some (of_char c)"
proof -
  have d: "(of_char c :: nat) div 16 < 16" by (rule of_char_hi)
  have m: "(of_char c :: nat) mod 16 < 16" by simp
  have z: "ishex (CHR ''0'')" "unhex (CHR ''0'') = 0" by (simp_all add: ishex_def unhex_def)
  show ?thesis
    unfolding getu4_Cons
    by (simp add: z ishex_lowerhex[OF d] ishex_lowerhex[OF m] unhex_lowerhex[OF d] unhex_lowerhex[OF m])
qed

lemma parse_ascii:
  assumes "c < CHR 0x80"
  shows "parseString (jsonEscapeByte c @ X) = prepend [c] (parseString X)"
proof -
  consider (q) "c = CHR 0x22 \<or> c = CHR 0x5C"
    | (b) "c = CHR 0x08" | (f) "c = CHR 0x0C" | (n) "c = CHR 0x0A" | (r) "c = CHR 0x0D" | (t) "c = CHR 0x09"
    | (u) "c \<noteq> CHR 0x22" "c \<noteq> CHR 0x5C" "c \<noteq> CHR 0x08" "c \<noteq> CHR 0x0C" "c \<noteq> CHR 0x0A"
          "c \<noteq> CHR 0x0D" "c \<noteq> CHR 0x09"
          "c < CHR '' '' \<or> c = CHR ''<'' \<or> c = CHR ''>'' \<or> c = CHR ''&''"
    | (raw) "c \<noteq> CHR 0x22" "c \<noteq> CHR 0x5C" "c \<noteq> CHR 0x08" "c \<noteq> CHR 0x0C" "c \<noteq> CHR 0x0A"
          "c \<noteq> CHR 0x0D" "c \<noteq> CHR 0x09"
          "\<not> (c < CHR '' '' \<or> c = CHR ''<'' \<or> c = CHR ''>'' \<or> c = CHR ''&'')"
    by blast
  then show ?thesis
  proof cases
    case q
    then have "unescapeLetter c = Some c" "c \<noteq> CHR ''u''" using unescape_facts by auto
    then show ?thesis using q parseString_letter[of c c X] by (auto simp: jsonEscapeByte_def)
  next
    case b
    then show ?thesis using parseString_letter[of "CHR ''b''" "CHR 0x08" X] unescape_facts
      by (simp add: jsonEscapeByte_def)
  next
    case f
    then show ?thesis using parseString_letter[of "CHR ''f''" "CHR 0x0C" X] unescape_facts
      by (simp add: jsonEscapeByte_def)
  next
    case n
    then show ?thesis using parseString_letter[of "CHR ''n''" "CHR 0x0A" X] unescape_facts
      by (simp add: jsonEscapeByte_def)
  next
    case r
    then show ?thesis using parseString_letter[of "CHR ''r''" "CHR 0x0D" X] unescape_facts
      by (simp add: jsonEscapeByte_def)
  next
    case t
    then show ?thesis using parseString_letter[of "CHR ''t''" "CHR 0x09" X] unescape_facts
      by (simp add: jsonEscapeByte_def)
  next
    case u
    have e: "jsonEscapeByte c = [CHR 0x5C, CHR ''u'', CHR ''0'', CHR ''0'',
              lowerhex ! (of_char c div 16), lowerhex ! (of_char c mod 16)]"
      using u by (simp add: jsonEscapeByte_def)
    have s: "\<not> (55296 \<le> (of_char c :: nat) \<and> (of_char c :: nat) < 57344)"
      using of_char_lt_256[of c] by arith
    show ?thesis unfolding e using parseString_u4[OF getu4_byte s, of X] utf8_ascii[OF assms] by simp
  next
    case raw
    have e: "jsonEscapeByte c = [c]" using raw by (simp add: jsonEscapeByte_def)
    have "runeSize (c # X) = 1" using assms by (rule runeSize_ascii)
    then show ?thesis unfolding e using parseString_raw[of c X 1] raw by simp
  qed
qed

lemma high_not_special:
  assumes "CHR 0x80 \<le> c"
  shows "c \<noteq> CHR 0x22" "c \<noteq> CHR 0x5C" "\<not> c < CHR '' ''"
  using assms by (auto simp: less_eq_char_def less_char_def)

lemma parse_rune:
  assumes "isRune r"
  shows "parseString (jsonEscapeRune r @ X)
           = prepend (if runeSize r = 0 then replacement else r) (parseString X)"
proof (cases "runeSize r = 0")
  case True
  then show ?thesis using parse_invalid by simp
next
  case False
  then have len: "runeSize r = length r" and ne: "r \<noteq> []" using assms by (auto simp: isRune_def)
  obtain c r' where r: "r = c # r'" using ne by (cases r) auto
  show ?thesis
  proof (cases "r = [CHR 0xE2, CHR 0x80, CHR 0xA8]")
    case True
    then show ?thesis using parse_2028 False by simp
  next
    case n8: False
    show ?thesis
    proof (cases "r = [CHR 0xE2, CHR 0x80, CHR 0xA9]")
      case True
      then show ?thesis using parse_2029 False by simp
    next
      case n9: False
      show ?thesis
      proof (cases "length r = 1")
        case True
        then have r1: "r = [c]" using r by simp
        have "c < CHR 0x80"
        proof (rule ccontr)
          assume "\<not> c < CHR 0x80"
          then have "runeSize [c] = 0" using runeShape_size[of c]
            by (cases "runeShape c") (auto simp: runeSize_def)
          then show False using False r1 by simp
        qed
        then show ?thesis using parse_ascii[of c X] False n8 n9 r1 by (simp add: jsonEscapeRune_def)
      next
        case l: False
        then have "1 < runeSize (c # r')" using len r by (cases r') auto
        then have h: "CHR 0x80 \<le> c" by (rule runeSize_high)
        have rs: "runeSize (c # r' @ X) = length r"
          using runeSize_take[of r "length r" X] len ne r by simp
        have "parseString (c # r' @ X) = prepend (take (length r) (c # r' @ X)) (parseString (drop (length r) (c # r' @ X)))"
          using parseString_raw[of c "r' @ X" "length r"] high_not_special[OF h] rs ne by simp
        moreover have "take (length r) (c # r' @ X) = r" "drop (length r) (c # r' @ X) = X"
          using r by simp_all
        ultimately have "parseString (r @ X) = prepend r (parseString X)" using r by simp
        moreover have "jsonEscapeRune r = r" using False n8 n9 l by (simp add: jsonEscapeRune_def)
        ultimately show ?thesis using False by simp
      qed
    qed
  qed
qed

lemma parseString_escaped:
  "parseString (concat (map jsonEscapeRune (runes s)) @ CHR 0x22 # rest) = Some (coerceUTF8 s, rest)"
proof (induction s rule: runes.induct)
  case (1 s)
  show ?case
  proof (cases "s = []")
    case True
    then show ?thesis by (simp add: runes_Nil coerceUTF8_def parseString_quote)
  next
    case False
    let ?r = "take (max 1 (runeSize s)) s" and ?s = "drop (max 1 (runeSize s)) s"
    have ih: "parseString (concat (map jsonEscapeRune (runes ?s)) @ CHR 0x22 # rest) = Some (coerceUTF8 ?s, rest)"
      using 1 False by simp
    have c: "coerceUTF8 s = (if runeSize ?r = 0 then replacement else ?r) @ coerceUTF8 ?s"
      by (simp add: coerceUTF8_def runes_Cons[OF False])
    have "parseString (concat (map jsonEscapeRune (runes s)) @ CHR 0x22 # rest)
            = parseString (jsonEscapeRune ?r @ (concat (map jsonEscapeRune (runes ?s)) @ CHR 0x22 # rest))"
      by (simp add: runes_Cons[OF False])
    also have "\<dots> = prepend (if runeSize ?r = 0 then replacement else ?r)
                        (parseString (concat (map jsonEscapeRune (runes ?s)) @ CHR 0x22 # rest))"
      by (rule parse_rune[OF isRune_head[OF False]])
    also have "\<dots> = Some (coerceUTF8 s, rest)" unfolding ih c by simp
    finally show ?thesis .
  qed
qed

lemma parseString_jsonQuote:
  "parseString (tl (jsonQuote s) @ rest) = Some (coerceUTF8 s, rest)"
  using parseString_escaped[of s rest] by (simp add: jsonQuote_def)

subsection \<open>JSON texts written and read back\<close>

lemma skipSpace_start: "s \<noteq> [] \<Longrightarrow> \<not> isSpace (hd s) \<Longrightarrow> skipSpace (s @ r) = s @ r"
  by (cases s) (simp_all add: skipSpace_def)

lemma skipSpace_Cons: "\<not> isSpace c \<Longrightarrow> skipSpace (c # r) = c # r"
  by (simp add: skipSpace_def)

lemma skipSpace_Nil: "skipSpace [] = []"
  by (simp add: skipSpace_def)

lemma isDigit_facts:
  assumes "c = CHR ''-'' \<or> isDigit c"
  shows "\<not> isSpace c" "c \<noteq> CHR '']''" "c \<noteq> CHR ''}''" "c \<noteq> CHR ''{''" "c \<noteq> CHR ''[''"
    "c \<noteq> CHR 0x22" "c \<noteq> CHR ''t''" "c \<noteq> CHR ''f''" "c \<noteq> CHR ''n''"
  using assms by (auto simp: isDigit_def isSpace_def)

text \<open>The first byte of a text written.\<close>

lemma render_start:
  assumes "wellFormed j"
  shows "render j \<noteq> [] \<and> \<not> isSpace (hd (render j)) \<and> hd (render j) \<noteq> CHR '']''
         \<and> hd (render j) \<noteq> CHR ''}''"
proof (cases j)
  case (JNumber t)
  then show ?thesis using assms numberLiteral_start[of t] isDigit_facts[of "hd t"] by auto
qed (auto simp: FormatBool_def jsonQuote_def isSpace_def)

lemma parseValue_null: "parseValue (Suc n) (''null'' @ rest) = Some (JNull, rest)"
  by simp

lemma parseValue_true: "parseValue (Suc n) (''true'' @ rest) = Some (JBool True, rest)"
  by simp

lemma parseValue_false: "parseValue (Suc n) (''false'' @ rest) = Some (JBool False, rest)"
  by simp

lemma parseValue_number:
  assumes "numberLiteral t" and "delimited rest"
  shows "parseValue (Suc n) (t @ rest) = Some (JNumber t, rest)"
proof -
  obtain c r where t: "t = c # r" using numberLiteral_start[OF assms(1)] by (cases t) auto
  have c: "c = CHR ''-'' \<or> isDigit c" using numberLiteral_start[OF assms(1)] t by simp
  have p: "parseNumber (c # r @ rest) = Some (c # r, rest)"
    using numberLiteral_frame[OF assms] t by simp
  show ?thesis unfolding t using isDigit_facts[OF c] p by simp
qed

lemma parseValue_string:
  "parseValue (Suc n) (jsonQuote s @ rest) = Some (JString (coerceUTF8 s), rest)"
  using parseString_escaped[of s rest] by (simp add: jsonQuote_def)

text \<open>Elements and members of a text written, read with enough fuel.\<close>

lemma length_Join_Cons: "length p \<le> length (Join (p # ps) sep)"
  by (cases ps) simp_all

lemma parseElems_rendered:
  assumes "xs \<noteq> []"
    and "\<And>x n rest. x \<in> set xs \<Longrightarrow> length (render x) < n \<Longrightarrow> delimited rest
           \<Longrightarrow> parseValue n (render x @ rest) = Some (coerceJSON x, rest)"
    and "\<forall>x\<in>set xs. wellFormed x"
    and "length (Join (map render xs) '','') + 1 < m"
  shows "parseElems m (Join (map render xs) '','' @ CHR '']'' # rest) = Some (map coerceJSON xs, rest)"
  using assms
proof (induction xs arbitrary: m rule: list_nonempty_induct)
  case (single x)
  obtain m' where m: "m = Suc m'" using single(3) by (cases m) auto
  have "parseValue m' (render x @ CHR '']'' # rest) = Some (coerceJSON x, CHR '']'' # rest)"
    using single(1)[of x m' "CHR '']'' # rest"] single(3) m by (simp add: delimited_def)
  then show ?case unfolding m by (simp add: skipSpace_Cons isSpace_def)
next
  case (cons x xs)
  obtain m' where m: "m = Suc m'" using cons(5) by (cases m) auto
  obtain y ys where xs: "xs = y # ys" using cons(1) by (cases xs) auto
  let ?tail = "Join (map render xs) '','' @ CHR '']'' # rest"
  have j: "Join (map render (x # xs)) '','' = render x @ '','' @ Join (map render xs) '',''"
    using xs by simp
  have rx: "render x \<noteq> []" using render_start[of x] cons(4) by simp
  have "parseValue m' (render x @ CHR '','' # ?tail) = Some (coerceJSON x, CHR '','' # ?tail)"
    using cons(3)[of x m' "CHR '','' # ?tail"] cons(5) m j by (simp add: delimited_def)
  moreover have st: "Join (map render xs) '','' \<noteq> [] \<and> \<not> isSpace (hd (Join (map render xs) '',''))"
    using xs render_start[of y] cons(4) by (cases ys) auto
  then have "skipSpace ?tail = ?tail" using skipSpace_start by blast
  moreover have "parseElems m' ?tail = Some (map coerceJSON xs, rest)"
  proof (rule cons(2))
    show "\<And>x n rest. x \<in> set xs \<Longrightarrow> length (render x) < n \<Longrightarrow> delimited rest
           \<Longrightarrow> parseValue n (render x @ rest) = Some (coerceJSON x, rest)"
      using cons(3) by simp
    show "\<forall>x\<in>set xs. wellFormed x" using cons(4) by simp
    show "length (Join (map render xs) '','') + 1 < m'"
      using cons(5) m j rx by (cases "render x") auto
  qed
  ultimately show ?case unfolding m j by (simp add: skipSpace_Cons isSpace_def)
qed

lemma jsonQuote_Cons: "jsonQuote k = CHR 0x22 # tl (jsonQuote k)"
  by (simp add: jsonQuote_def)

lemma parseMembers_one:
  assumes "length (render v) < n" and "wellFormed v" and "delimited (e # r4)"
    and "\<And>n rest. length (render v) < n \<Longrightarrow> delimited rest
           \<Longrightarrow> parseValue n (render v @ rest) = Some (coerceJSON v, rest)"
  shows "parseMembers (Suc n) (jsonQuote k @ '':'' @ render v @ e # r4)
           = (if e = CHR '','' then
                map_option (\<lambda>(ms, rest). ((coerceUTF8 k, coerceJSON v) # ms, rest))
                  (parseMembers n (skipSpace r4))
              else if e = CHR ''}'' then Some ([(coerceUTF8 k, coerceJSON v)], r4)
              else None)"
proof -
  have 1: "parseString (tl (jsonQuote k) @ '':'' @ render v @ e # r4)
             = Some (coerceUTF8 k, '':'' @ render v @ e # r4)"
    by (rule parseString_jsonQuote)
  have 2: "skipSpace (render v @ e # r4) = render v @ e # r4"
    using skipSpace_start[of "render v" "e # r4"] render_start[OF assms(2)] by simp
  have 3: "parseValue n (render v @ e # r4) = Some (coerceJSON v, e # r4)"
    using assms(4)[OF assms(1,3)] .
  have 4: "skipSpace (e # r4) = e # r4"
    using assms(3) by (auto simp: delimited_def skipSpace_def isSpace_def)
  have "parseMembers (Suc n) (CHR 0x22 # tl (jsonQuote k) @ '':'' @ render v @ e # r4)
           = (if e = CHR '','' then
                map_option (\<lambda>(ms, rest). ((coerceUTF8 k, coerceJSON v) # ms, rest))
                  (parseMembers n (skipSpace r4))
              else if e = CHR ''}'' then Some ([(coerceUTF8 k, coerceJSON v)], r4)
              else None)"
    using 1 2 3 4 by (simp add: skipSpace_Cons isSpace_def)
  then show ?thesis using jsonQuote_Cons[of k] by (metis append_Cons)
qed

lemma parseMembers_rendered:
  assumes "ms \<noteq> []"
    and "\<And>m n rest. m \<in> set ms \<Longrightarrow> length (render (snd m)) < n \<Longrightarrow> delimited rest
           \<Longrightarrow> parseValue n (render (snd m) @ rest) = Some (coerceJSON (snd m), rest)"
    and "\<forall>m\<in>set ms. wellFormed (snd m)"
    and "length (Join (map (\<lambda>m. jsonQuote (fst m) @ '':'' @ render (snd m)) ms) '','') + 1 < f"
  shows "parseMembers f (Join (map (\<lambda>m. jsonQuote (fst m) @ '':'' @ render (snd m)) ms) '','' @ CHR ''}'' # rest)
           = Some (map (\<lambda>m. (coerceUTF8 (fst m), coerceJSON (snd m))) ms, rest)"
  using assms
proof (induction ms arbitrary: f rule: list_nonempty_induct)
  case (single x)
  obtain f' where f: "f = Suc f'" using single(3) by (cases f) auto
  have "parseMembers (Suc f') (jsonQuote (fst x) @ '':'' @ render (snd x) @ CHR ''}'' # rest)
          = Some ([(coerceUTF8 (fst x), coerceJSON (snd x))], rest)"
  proof (subst parseMembers_one)
    show "length (render (snd x)) < f'" using single(3) f by simp
    show "wellFormed (snd x)" using single(2) by simp
    show "delimited (CHR ''}'' # rest)" by (simp add: delimited_def)
    show "\<And>n rest. length (render (snd x)) < n \<Longrightarrow> delimited rest
           \<Longrightarrow> parseValue n (render (snd x) @ rest) = Some (coerceJSON (snd x), rest)"
      using single(1) by simp
  qed simp
  then show ?case unfolding f by simp
next
  case (cons x xs)
  let ?mt = "\<lambda>m. jsonQuote (fst m) @ '':'' @ render (snd m)"
  obtain f' where f: "f = Suc f'" using cons(5) by (cases f) auto
  obtain y ys where xs: "xs = y # ys" using cons(1) by (cases xs) auto
  let ?tail = "Join (map ?mt xs) '','' @ CHR ''}'' # rest"
  have j: "Join (map ?mt (x # xs)) '','' = jsonQuote (fst x) @ '':'' @ render (snd x) @ '','' @ Join (map ?mt xs) '',''"
    using xs by simp
  have st: "Join (map ?mt xs) '','' \<noteq> [] \<and> \<not> isSpace (hd (Join (map ?mt xs) '',''))"
    using xs by (cases ys) (auto simp: jsonQuote_def isSpace_def)
  then have sk: "skipSpace ?tail = ?tail" using skipSpace_start by blast
  have ih: "parseMembers f' ?tail = Some (map (\<lambda>m. (coerceUTF8 (fst m), coerceJSON (snd m))) xs, rest)"
  proof (rule cons(2))
    show "\<And>m n rest. m \<in> set xs \<Longrightarrow> length (render (snd m)) < n \<Longrightarrow> delimited rest
           \<Longrightarrow> parseValue n (render (snd m) @ rest) = Some (coerceJSON (snd m), rest)"
      using cons(3) by simp
    show "\<forall>m\<in>set xs. wellFormed (snd m)" using cons(4) by simp
    show "length (Join (map ?mt xs) '','') + 1 < f'"
      using cons(5) f j by (simp add: jsonQuote_def)
  qed
  have "parseMembers (Suc f') (jsonQuote (fst x) @ '':'' @ render (snd x) @ CHR '','' # ?tail)
          = Some (map (\<lambda>m. (coerceUTF8 (fst m), coerceJSON (snd m))) (x # xs), rest)"
  proof (subst parseMembers_one)
    show "length (render (snd x)) < f'" using cons(5) f j by simp
    show "wellFormed (snd x)" using cons(4) by simp
    show "delimited (CHR '','' # ?tail)" by (simp add: delimited_def)
    show "\<And>n rest. length (render (snd x)) < n \<Longrightarrow> delimited rest
           \<Longrightarrow> parseValue n (render (snd x) @ rest) = Some (coerceJSON (snd x), rest)"
      using cons(3) by simp
  qed (use sk ih in simp)
  then show ?case unfolding f j by simp
qed

text \<open>A text written, read back.\<close>

lemma parseValue_rendered:
  "wellFormed j \<Longrightarrow> length (render j) < n \<Longrightarrow> delimited rest
     \<Longrightarrow> parseValue n (render j @ rest) = Some (coerceJSON j, rest)"
proof (induction j arbitrary: n rest)
  case JNull
  then obtain n' where "n = Suc n'" by (cases n) auto
  then show ?case using parseValue_null by simp
next
  case (JBool b)
  then obtain n' where "n = Suc n'" by (cases n) auto
  then show ?case using parseValue_true parseValue_false by (cases b) (simp_all add: FormatBool_def)
next
  case (JNumber t)
  then obtain n' where "n = Suc n'" by (cases n) auto
  then show ?case using parseValue_number[of t rest n'] JNumber by simp
next
  case (JString s)
  then obtain n' where "n = Suc n'" by (cases n) auto
  then show ?case using parseValue_string[of n' s rest] by simp
next
  case (JArray xs)
  obtain n' where n: "n = Suc n'" using JArray(3) by (cases n) auto
  show ?case
  proof (cases "xs = []")
    case True
    then show ?thesis unfolding n by (simp add: skipSpace_Cons isSpace_def)
  next
    case False
    let ?body = "Join (map render xs) '','' @ CHR '']'' # rest"
    obtain y ys where xs: "xs = y # ys" using False by (cases xs) auto
    have st: "Join (map render xs) '','' \<noteq> [] \<and> \<not> isSpace (hd (Join (map render xs) '',''))
              \<and> hd (Join (map render xs) '','') \<noteq> CHR '']''"
      using xs render_start[of y] JArray(2) by (cases ys) auto
    then obtain d r' where b: "?body = d # r'" and d: "d \<noteq> CHR '']''" "\<not> isSpace d"
      by (cases "Join (map render xs) '',''") auto
    have pe: "parseElems n' ?body = Some (map coerceJSON xs, rest)"
    proof (rule parseElems_rendered[OF False])
      show "\<And>x n rest. x \<in> set xs \<Longrightarrow> length (render x) < n \<Longrightarrow> delimited rest
           \<Longrightarrow> parseValue n (render x @ rest) = Some (coerceJSON x, rest)"
        using JArray(1,2) by simp
      show "\<forall>x\<in>set xs. wellFormed x" using JArray(2) by simp
      show "length (Join (map render xs) '','') + 1 < n'" using JArray(3) n by simp
    qed
    have "parseValue (Suc n') (CHR ''['' # ?body) = Some (JArray (map coerceJSON xs), rest)"
      unfolding b using pe[unfolded b] d by (simp add: skipSpace_Cons)
    then show ?thesis unfolding n by simp
  qed
next
  case (JObject ms)
  let ?mt = "\<lambda>m. jsonQuote (fst m) @ '':'' @ render (snd m)"
  obtain n' where n: "n = Suc n'" using JObject(3) by (cases n) auto
  show ?case
  proof (cases "ms = []")
    case True
    then show ?thesis unfolding n by (simp add: skipSpace_Cons isSpace_def)
  next
    case False
    let ?body = "Join (map ?mt ms) '','' @ CHR ''}'' # rest"
    obtain y ys where xs: "ms = y # ys" using False by (cases ms) auto
    have st: "Join (map ?mt ms) '','' \<noteq> [] \<and> \<not> isSpace (hd (Join (map ?mt ms) '',''))
              \<and> hd (Join (map ?mt ms) '','') \<noteq> CHR ''}''"
      using xs by (cases ys) (auto simp: jsonQuote_def isSpace_def)
    then obtain d r' where b: "?body = d # r'" and d: "d \<noteq> CHR ''}''" "\<not> isSpace d"
      by (cases "Join (map ?mt ms) '',''") auto
    have pe: "parseMembers n' ?body = Some (map (\<lambda>m. (coerceUTF8 (fst m), coerceJSON (snd m))) ms, rest)"
    proof (rule parseMembers_rendered[OF False])
      show "\<And>m n rest. m \<in> set ms \<Longrightarrow> length (render (snd m)) < n \<Longrightarrow> delimited rest
           \<Longrightarrow> parseValue n (render (snd m) @ rest) = Some (coerceJSON (snd m), rest)"
      proof -
        fix m :: "string \<times> json" and n rest
        assume a: "m \<in> set ms" "length (render (snd m)) < n" "delimited rest"
        have "snd m \<in> Basic_BNFs.snds m" by (cases m) simp
        moreover have "wellFormed (snd m)" using JObject(2) a(1) by simp
        ultimately show "parseValue n (render (snd m) @ rest) = Some (coerceJSON (snd m), rest)"
          using JObject(1)[OF a(1)] a(2,3) by blast
      qed
      show "\<forall>m\<in>set ms. wellFormed (snd m)" using JObject(2) by simp
      show "length (Join (map ?mt ms) '','') + 1 < n'" using JObject(3) n by simp
    qed
    have "parseValue (Suc n') (CHR ''{'' # ?body) = Some (JObject (map (\<lambda>m. (coerceUTF8 (fst m), coerceJSON (snd m))) ms), rest)"
      unfolding b using pe[unfolded b] d by (simp add: skipSpace_Cons)
    then show ?thesis unfolding n by simp
  qed
qed

lemma parseJSON_render: "wellFormed j \<Longrightarrow> parseJSON (render j) = Some (coerceJSON j)"
  using parseValue_rendered[of j "2 * length (render j) + 2" "[]"]
    skipSpace_start[of "render j" "[]"] render_start[of j]
  by (simp add: parseJSON_def delimited_def skipSpace_Nil)

lemma json_Valid_render: "wellFormed j \<Longrightarrow> json_Valid (render j)"
  by (simp add: json_Valid_def parseJSON_render)

lemma toJSON_wellFormed_all:
  "(\<forall>v. finiteFloat v \<longrightarrow> numberLiteral (fl v)) \<Longrightarrow> toJSON fl v = Some j \<Longrightarrow> wellFormed j"
  "(\<forall>v. finiteFloat v \<longrightarrow> numberLiteral (fl v)) \<Longrightarrow> toJSONList fl xs = Some js \<Longrightarrow> \<forall>x\<in>set js. wellFormed x"
  "(\<forall>v. finiteFloat v \<longrightarrow> numberLiteral (fl v)) \<Longrightarrow> toJSONFields fl fs = Some ms \<Longrightarrow> \<forall>m\<in>set ms. wellFormed (snd m)"
  "(\<forall>v. finiteFloat v \<longrightarrow> numberLiteral (fl v)) \<Longrightarrow> toJSONEntries fl es = Some ms' \<Longrightarrow> \<forall>m\<in>set ms'. wellFormed (snd m)"
proof (induction fl v and fl xs and fl fs and fl es arbitrary: j and js and ms and ms'
    rule: toJSON_toJSONList_toJSONFields_toJSONEntries.induct)
  case (3 fl i)
  then show ?case by (auto simp: numberLiteral_Sprintf_d)
next
  case (4 fl n)
  then show ?case by (auto simp: numberLiteral_Sprintf_u)
next
  case (5 fl w)
  then have "numberLiteral (fl (GFloat32 w))" "j = JNumber (fl (GFloat32 w))"
    by (auto split: if_splits)
  then show ?case by simp
next
  case (6 fl w)
  then have "numberLiteral (fl (GFloat64 w))" "j = JNumber (fl (GFloat64 w))"
    by (auto split: if_splits)
  then show ?case by simp
next
  case (18 fl n)
  then show ?case by (auto simp: numberLiteral_Sprintf_u)
next
  case (23 fl name x fs)
  then obtain j' ms0 where a: "toJSON fl x = Some j'" "toJSONFields fl fs = Some ms0" "ms = (name, j') # ms0"
    by (auto split: option.splits)
  have "wellFormed j'" using 23(1)[OF 23(3) a(1)] .
  moreover have "\<forall>m\<in>set ms0. wellFormed (snd m)" using 23(2)[OF a(1) 23(3) a(2)] .
  ultimately show ?case using a(3) by simp
next
  case (25 fl k x es)
  then obtain kt j' ms0 where a: "mapKeyText k = Some kt" "toJSON fl x = Some j'"
      "toJSONEntries fl es = Some ms0" "ms' = (kt, j') # ms0"
    by (auto split: option.splits)
  have "wellFormed j'" using 25(1)[OF a(1) 25(3) a(2)] .
  moreover have "\<forall>m\<in>set ms0. wellFormed (snd m)" using 25(2)[OF a(1) a(2) 25(3) a(3)] .
  ultimately show ?case using a(4) by simp
qed (auto split: option.splits)

lemma toJSON_wellFormed:
  "encodingJSON fl lib x \<Longrightarrow> toJSON fl v = Some j \<Longrightarrow> wellFormed j"
  using toJSON_wellFormed_all(1)[of fl v j] by (simp add: encodingJSON_def)

lemma coerceJSON_valid: "validStrings j \<Longrightarrow> coerceJSON j = j"
proof (induction j)
  case (JString s)
  then show ?case by (simp add: coerceUTF8_valid)
next
  case (JArray xs)
  then show ?case by (simp add: map_idI)
next
  case (JObject ms)
  have "map (\<lambda>m. (coerceUTF8 (fst m), coerceJSON (snd m))) ms = ms"
  proof (rule map_idI)
    fix m assume m: "m \<in> set ms"
    have "snd m \<in> Basic_BNFs.snds m" by (cases m) simp
    then have "coerceJSON (snd m) = snd m" using JObject m by auto
    moreover have "coerceUTF8 (fst m) = fst m" using JObject(2) m by (simp add: coerceUTF8_valid)
    ultimately show "(coerceUTF8 (fst m), coerceJSON (snd m)) = m" by (cases m) simp
  qed
  then show ?case by simp
qed simp_all

text \<open>What \<open>json.Marshal\<close> returns is a JSON text of the value.\<close>

lemma json_Marshal_text:
  assumes "encodingJSON fl lib v" and "json_Marshal lib v = Inr t"
  shows "\<exists>j. toJSON fl v = Some j \<and> t = render j \<and> json_Valid t
             \<and> parseJSON t = Some (coerceJSON j)"
proof -
  have "marshalValue fl v = Some t" using assms unfolding encodingJSON_def by blast
  then obtain j where j: "toJSON fl v = Some j" "t = render j"
    by (auto simp: marshalValue_def)
  have "wellFormed j" using toJSON_wellFormed[OF assms(1) j(1)] .
  then show ?thesis using j parseJSON_render json_Valid_render by simp
qed

subsection \<open>The instance is \<open>encoding/json\<close>\<close>

lemma numberLiteral_zero: "numberLiteral ''0''"
  by code_simp

lemma encodingJSON_stdlib: "encodingJSON floatDigits (stdlib srv) v"
  by (auto simp: encodingJSON_def stdlib_def floatDigits_def numberLiteral_zero split: option.splits)

section \<open>The properties\<close>

subsection \<open>C1: absent values are omitted, all other entries appear\<close>

text \<open>
  C1. For every parameter mapping passed to \<open>BuildQueryString\<close> and every entry of it: if
  the value is absent (the nil value or a nil pointer), no pair of the returned query string
  has the entry's key; otherwise the loop encodes the value and the returned string holds
  the pair of the escaped key and that encoded value.
\<close>

theorem BuildQueryString_omits_absent:
  assumes "distinct (map fst ps)" and "(key, val) \<in> set ps"
  shows "if absent val
         then QueryEscape key \<notin> fst ` set (queryPairs (fst (BuildQueryString lib c ps)))
         else \<exists>encoded. encodedValue lib val = Some encoded
                \<and> map_of (queryPairs (fst (BuildQueryString lib c ps))) (QueryEscape key)
                    = Some encoded"
proof (cases "absent val")
  case True
  then show ?thesis using absent_key[OF assms] by simp
next
  case False
  then have "encodedValue lib val \<noteq> None"
    by (simp add: absent_def encodedValue_None_iff)
  then show ?thesis using False present_pair[OF assms False] by auto
qed

text \<open>The parameters \<open>search = "test"\<close>, \<open>page = nil\<close>, \<open>limit = (*int)(nil)\<close>: the key
  \<open>page\<close> is missing and \<open>search\<close> is there.\<close>

theorem BuildQueryString_omits_absent_witness:
  "distinct (map fst nilParams) \<and> (''page'', GNil) \<in> set nilParams \<and> absent GNil
   \<and> (''search'', GString ''test'') \<in> set nilParams \<and> \<not> absent (GString ''test'')
   \<and> QueryEscape ''page'' \<notin> fst ` set (queryPairs (fst (BuildQueryString offline testClient nilParams)))
   \<and> map_of (queryPairs (fst (BuildQueryString offline testClient nilParams))) (QueryEscape ''search'')
        = Some ''test''"
proof -
  have d: "distinct (map fst nilParams)" by (simp add: nilParams_def)
  have m1: "(''page'', GNil) \<in> set nilParams" by (simp add: nilParams_def)
  have m2: "(''search'', GString ''test'') \<in> set nilParams" by (simp add: nilParams_def)
  have a1: "absent GNil" by (simp add: absent_def)
  have a2: "\<not> absent (GString ''test'')" by (simp add: absent_def)
  have e: "encodedValue offline (GString ''test'') = Some ''test''" by code_simp
  show ?thesis
    using BuildQueryString_omits_absent[OF d m1, of offline testClient]
      BuildQueryString_omits_absent[OF d m2, of offline testClient] d m1 m2 a1 a2 e
    by simp
qed

subsection \<open>C2: structured values are serialized as escaped JSON\<close>

text \<open>
  As stated, C2 fails in two ways. Where \<open>json.Marshal\<close> returns an error, the code falls
  back to the \<open>%v\<close> text: for the slice \<open>[]chan int{nil}\<close> the value of the key is the
  escaped text \<open>[<nil>]\<close>, which is not JSON. Where a string of the value is not valid
  UTF-8, \<open>json.Marshal\<close> succeeds but writes the escape of U+FFFD for each offending byte:
  for the slice that holds the one-byte string \<open>0xFF\<close> the value of the key is valid JSON,
  and it decodes to the three bytes of U+FFFD, not to the byte \<open>0xFF\<close>.
\<close>

theorem BuildQueryString_structured_counterexample:
  "structured (GSlice [GChan 0])
   \<and> json_Marshal offline (pointee (GSlice [GChan 0])) = Inl ''json: unsupported type''
   \<and> map_of (queryPairs (fst (BuildQueryString offline testClient [(''q'', GSlice [GChan 0])])))
        (QueryEscape ''q'') = Some ''%5B%3Cnil%3E%5D''
   \<and> QueryUnescape ''%5B%3Cnil%3E%5D'' = Some ''[<nil>]''
   \<and> \<not> json_Valid ''[<nil>]''
   \<and> structured (GSlice [GString [CHR 0xFF]])
   \<and> json_Marshal offline (pointee (GSlice [GString [CHR 0xFF]]))
       = Inr (''[\"'' @ CHR 0x5C # ''ufffd\"]'')
   \<and> map_of (queryPairs (fst (BuildQueryString offline testClient
                                   [(''q'', GSlice [GString [CHR 0xFF]])])))
        (QueryEscape ''q'') = Some ''%5B%22%5Cufffd%22%5D''
   \<and> QueryUnescape ''%5B%22%5Cufffd%22%5D'' = Some (''[\"'' @ CHR 0x5C # ''ufffd\"]'')
   \<and> parseJSON (''[\"'' @ CHR 0x5C # ''ufffd\"]'')
       = Some (JArray [JString [CHR 0xEF, CHR 0xBF, CHR 0xBD]])
   \<and> toJSON floatDigits (pointee (GSlice [GString [CHR 0xFF]]))
       = Some (JArray [JString [CHR 0xFF]])"
proof -
  have 1: "structured (GSlice [GChan 0])
     \<and> json_Marshal offline (pointee (GSlice [GChan 0])) = Inl ''json: unsupported type''
     \<and> map_of (queryPairs (fst (BuildQueryString offline testClient [(''q'', GSlice [GChan 0])])))
          (QueryEscape ''q'') = Some ''%5B%3Cnil%3E%5D''
     \<and> QueryUnescape ''%5B%3Cnil%3E%5D'' = Some ''[<nil>]''
     \<and> \<not> json_Valid ''[<nil>]''"
    by code_simp
  have 2: "structured (GSlice [GString [CHR 0xFF]])
     \<and> json_Marshal offline (pointee (GSlice [GString [CHR 0xFF]]))
         = Inr (''[\"'' @ CHR 0x5C # ''ufffd\"]'')
     \<and> map_of (queryPairs (fst (BuildQueryString offline testClient
                                     [(''q'', GSlice [GString [CHR 0xFF]])])))
          (QueryEscape ''q'') = Some ''%5B%22%5Cufffd%22%5D''
     \<and> QueryUnescape ''%5B%22%5Cufffd%22%5D'' = Some (''[\"'' @ CHR 0x5C # ''ufffd\"]'')
     \<and> toJSON floatDigits (pointee (GSlice [GString [CHR 0xFF]]))
         = Some (JArray [JString [CHR 0xFF]])"
    by code_simp
  have r: "render (JArray [JString [CHR 0xFF]]) = ''[\"'' @ CHR 0x5C # ''ufffd\"]''"
    by code_simp
  have c: "coerceJSON (JArray [JString [CHR 0xFF]]) = JArray [JString [CHR 0xEF, CHR 0xBF, CHR 0xBD]]"
    by code_simp
  have "parseJSON (render (JArray [JString [CHR 0xFF]]))
          = Some (coerceJSON (JArray [JString [CHR 0xFF]]))"
    by (rule parseJSON_render) simp
  then have 3: "parseJSON (''[\"'' @ CHR 0x5C # ''ufffd\"]'')
         = Some (JArray [JString [CHR 0xEF, CHR 0xBF, CHR 0xBD]])"
    unfolding r c .
  show ?thesis using 1 2 3 by blast
qed

text \<open>
  C2, amended. For every structured value (a struct, map, slice or array, also behind a
  non-nil pointer) under some key for which \<open>json.Marshal\<close> succeeds, the value of that key
  in the returned string is the percent-encoding of the text that \<open>json.Marshal\<close>
  returned, percent-decoding gives that text back, the text is valid JSON, and it
  JSON-decodes to the JSON value of the original value with every byte that is not part
  of well-formed UTF-8 replaced by U+FFFD: to the JSON value of the original value itself
  when the strings of that are valid UTF-8.
\<close>

theorem BuildQueryString_structured:
  assumes "encodingJSON fl lib (pointee val)"
    and "distinct (map fst ps)" and "(key, val) \<in> set ps" and "structured val"
    and "json_Marshal lib (pointee val) = Inr jsonBytes"
  shows "\<exists>encoded original.
           map_of (queryPairs (fst (BuildQueryString lib c ps))) (QueryEscape key) = Some encoded
           \<and> encoded = QueryEscape jsonBytes
           \<and> QueryUnescape encoded = Some jsonBytes
           \<and> json_Valid jsonBytes
           \<and> toJSON fl (pointee val) = Some original
           \<and> parseJSON jsonBytes = Some (coerceJSON original)
           \<and> (validStrings original \<longrightarrow> parseJSON jsonBytes = Some original)"
proof -
  have na: "\<not> absent val"
    using assms(4) by (auto simp: structured_def absent_def isJSONKind_def)
  have "encodedValue lib val = Some (encodeStructured lib (pointee val))"
    using assms(4) by (auto simp: structured_def encodedValue_def pointee_def isJSONKind_def)
  then have m: "map_of (queryPairs (fst (BuildQueryString lib c ps))) (QueryEscape key)
               = Some (encodeStructured lib (pointee val))"
    using present_pair[OF assms(2,3) na] by simp
  have e: "encodeStructured lib (pointee val) = QueryEscape jsonBytes"
    using assms(5) by (simp add: encodeStructured_def)
  obtain original where j: "toJSON fl (pointee val) = Some original" "json_Valid jsonBytes"
      "parseJSON jsonBytes = Some (coerceJSON original)"
    using json_Marshal_text[OF assms(1,5)] by blast
  have "validStrings original \<longrightarrow> parseJSON jsonBytes = Some original"
    using j(3) coerceJSON_valid by simp
  then show ?thesis
    using m e j QueryUnescape_QueryEscape[of jsonBytes]
    by (intro exI[of _ "QueryEscape jsonBytes"] exI[of _ original]) simp
qed

text \<open>The case "array gets JSON encoded" of the tests.\<close>

theorem BuildQueryString_structured_witness:
  "encodingJSON floatDigits offline (pointee (GSlice [GString ''about.name'', GString ''domain.domain'']))
   \<and> distinct (map fst fieldsParams)
   \<and> (''searchFields'', GSlice [GString ''about.name'', GString ''domain.domain'']) \<in> set fieldsParams
   \<and> structured (GSlice [GString ''about.name'', GString ''domain.domain''])
   \<and> json_Marshal offline (pointee (GSlice [GString ''about.name'', GString ''domain.domain'']))
       = Inr ''[\"about.name\",\"domain.domain\"]''
   \<and> map_of (queryPairs (fst (BuildQueryString offline testClient fieldsParams))) (QueryEscape ''searchFields'')
       = Some ''%5B%22about.name%22%2C%22domain.domain%22%5D''
   \<and> QueryUnescape ''%5B%22about.name%22%2C%22domain.domain%22%5D''
       = Some ''[\"about.name\",\"domain.domain\"]''
   \<and> json_Valid ''[\"about.name\",\"domain.domain\"]''
   \<and> toJSON floatDigits (pointee (GSlice [GString ''about.name'', GString ''domain.domain'']))
       = Some (JArray [JString ''about.name'', JString ''domain.domain''])
   \<and> validStrings (JArray [JString ''about.name'', JString ''domain.domain''])
   \<and> parseJSON ''[\"about.name\",\"domain.domain\"]''
       = Some (JArray [JString ''about.name'', JString ''domain.domain''])"
proof -
  have enc: "encodingJSON floatDigits offline (pointee (GSlice [GString ''about.name'', GString ''domain.domain'']))"
    unfolding offline_def by (rule encodingJSON_stdlib)
  have d: "distinct (map fst fieldsParams)" by (simp add: fieldsParams_def)
  have m: "(''searchFields'', GSlice [GString ''about.name'', GString ''domain.domain'']) \<in> set fieldsParams"
    by (simp add: fieldsParams_def)
  have s: "structured (GSlice [GString ''about.name'', GString ''domain.domain''])"
    by code_simp
  have j: "json_Marshal offline (pointee (GSlice [GString ''about.name'', GString ''domain.domain'']))
       = Inr ''[\"about.name\",\"domain.domain\"]''"
    by code_simp
  have q: "QueryEscape ''[\"about.name\",\"domain.domain\"]'' = ''%5B%22about.name%22%2C%22domain.domain%22%5D''"
    by code_simp
  have t: "toJSON floatDigits (pointee (GSlice [GString ''about.name'', GString ''domain.domain'']))
       = Some (JArray [JString ''about.name'', JString ''domain.domain''])"
    by code_simp
  have v: "validStrings (JArray [JString ''about.name'', JString ''domain.domain''])"
    by code_simp
  show ?thesis
    using BuildQueryString_structured[OF enc d m s j, of testClient] enc d m s j q t v
    by auto
qed

subsection \<open>C3: primitive values are serialized as their escaped canonical string\<close>

text \<open>
  C3. For every value of a predeclared string, integer, unsigned integer, float or boolean
  type under some key, the value of that key in the returned string is the
  percent-encoding of the canonical string of the value: the string itself, the decimal
  digits, the \<open>%g\<close> rendering, \<open>true\<close> or \<open>false\<close>.
\<close>

theorem BuildQueryString_primitive:
  assumes "distinct (map fst ps)" and "(key, val) \<in> set ps"
    and "canonicalText lib val = Some t"
  shows "map_of (queryPairs (fst (BuildQueryString lib c ps))) (QueryEscape key)
           = Some (QueryEscape t)"
proof -
  have k: "\<not> isJSONKind (Kind val)" "Kind val \<noteq> reflect_Ptr" "val \<noteq> GNil"
    using assms(3) by (cases val; simp add: isJSONKind_def)+
  then have "\<not> absent val" by (simp add: absent_def)
  moreover have "encodePrimitive lib val = QueryEscape t"
    using assms(3) by (cases val) auto
  then have "encodedValue lib val = Some (QueryEscape t)"
    using k by (simp add: encodedValue_def)
  ultimately show ?thesis using present_pair[OF assms(1,2)] by simp
qed

text \<open>The case "mixed types" of the tests: an integer, a string and a boolean.\<close>

theorem BuildQueryString_primitive_witness:
  "distinct (map fst mixedParams) \<and> (''page'', GInt 1) \<in> set mixedParams
   \<and> canonicalText offline (GInt 1) = Some ''1''
   \<and> map_of (queryPairs (fst (BuildQueryString offline testClient mixedParams))) (QueryEscape ''page'')
        = Some (QueryEscape ''1'')
   \<and> map_of (queryPairs (fst (BuildQueryString offline testClient mixedParams))) (QueryEscape ''search'')
        = Some (QueryEscape ''test'')
   \<and> map_of (queryPairs (fst (BuildQueryString offline testClient mixedParams))) (QueryEscape ''simplified'')
        = Some (QueryEscape ''true'')"
proof -
  have d: "distinct (map fst mixedParams)" by (simp add: mixedParams_def)
  have m: "(''page'', GInt 1) \<in> set mixedParams" "(''search'', GString ''test'') \<in> set mixedParams"
    "(''simplified'', GBool True) \<in> set mixedParams"
    by (simp_all add: mixedParams_def)
  have t: "canonicalText offline (GInt 1) = Some ''1''"
    "canonicalText offline (GString ''test'') = Some ''test''"
    "canonicalText offline (GBool True) = Some ''true''"
    by code_simp+
  show ?thesis
    using BuildQueryString_primitive[OF d m(1) t(1), of testClient]
      BuildQueryString_primitive[OF d m(2) t(2), of testClient]
      BuildQueryString_primitive[OF d m(3) t(3), of testClient] d m t
    by simp
qed

subsection \<open>C4: the query string is deterministic and ordered by key\<close>

text \<open>
  C4. Two calls of \<open>BuildQueryString\<close> on the same mapping return the same string, in
  whatever order \<open>range\<close> visits the entries (and whatever the receiver), and the pairs of
  the returned string are in bytewise lexicographic order of their keys, the keys being
  read as they stand in the string: they are the escaped keys of the entries that are not
  absent, sorted.
\<close>

theorem BuildQueryString_deterministic:
  assumes "distinct (map fst ps)" and "distinct (map fst ps')" and "map_of ps = map_of ps'"
  shows "fst (BuildQueryString lib c ps) = fst (BuildQueryString lib c' ps')
         \<and> sorted (map fst (queryPairs (fst (BuildQueryString lib c ps))))
         \<and> map fst (queryPairs (fst (BuildQueryString lib c ps)))
             = sort (map (\<lambda>e. QueryEscape (fst e)) (filter (\<lambda>e. \<not> absent (snd e)) ps))"
proof -
  have "set ps = set ps'"
    using assms by (simp add: map_of_inject_set)
  then have sets: "set (finalParts lib ps) = set (finalParts lib ps')"
    by (simp add: set_finalParts)
  have d: "distinct (map partKey (finalParts lib ps))" "distinct (map partKey (finalParts lib ps'))"
    using assms(1,2) by (simp_all add: distinct_keys_finalParts)
  then have "inj_on partKey (set (finalParts lib ps) \<union> set (finalParts lib ps'))"
    using sets by (simp add: distinct_map)
  then have "finalParts lib ps = finalParts lib ps'"
    using d sets sorted_finalParts by (intro map_sorted_distinct_set_unique) auto
  then have "fst (BuildQueryString lib c ps) = fst (BuildQueryString lib c' ps')"
    by (simp add: BuildQueryString_fst)
  moreover have "sorted (map fst (queryPairs (fst (BuildQueryString lib c ps))))"
    by (simp only: keys_queryPairs sorted_finalParts)
  ultimately show ?thesis
    using keys_sorted_escaped[of lib c ps] by simp
qed

text \<open>The mapping of "mixed types", visited forwards and backwards.\<close>

theorem BuildQueryString_deterministic_witness:
  "distinct (map fst mixedParams) \<and> distinct (map fst (rev mixedParams))
   \<and> map_of mixedParams = map_of (rev mixedParams)
   \<and> fst (BuildQueryString offline testClient mixedParams)
       = fst (BuildQueryString offline visitorClient (rev mixedParams))
   \<and> sorted (map fst (queryPairs (fst (BuildQueryString offline testClient mixedParams))))
   \<and> fst (BuildQueryString offline testClient mixedParams)
       = ''fields=%5B%22name%22%2C%22domain%22%5D&page=1&search=test&simplified=true''"
proof -
  have d: "distinct (map fst mixedParams)" "distinct (map fst (rev mixedParams))"
    by (simp_all add: mixedParams_def)
  have e: "map_of mixedParams = map_of (rev mixedParams)"
    using d by (simp add: map_of_inject_set)
  have v: "fst (BuildQueryString offline testClient mixedParams)
       = ''fields=%5B%22name%22%2C%22domain%22%5D&page=1&search=test&simplified=true''"
    by code_simp
  note r = BuildQueryString_deterministic[OF d e, of offline testClient visitorClient]
  show ?thesis
    using d e v conjunct1[OF r] conjunct2[OF r] by blast
qed

subsection \<open>C5: an error response with a well-formed body gives a structured error\<close>

text \<open>
  As stated, for every status code outside 200 to 299, C5 fails between 300 and 399: the
  code tests \<open>resp.StatusCode >= 400\<close>. A response with status 300 and a well-formed error
  body is returned as a success, the body as the bytes and no error.
\<close>

theorem MakeRequest_structured_error_counterexample:
  "(300::int) \<notin> {200..299}
   \<and> json_Unmarshal_Error (apiServer 300 notFoundBody) notFoundBody
       = Inr \<lparr>Code = ''not_found'', Message = ''Company not found'', Details = []\<rparr>
   \<and> ret_err (MakeRequest (apiServer 300 notFoundBody) testClient 1 ''GET'' ''/v2/companies/x'' GNil)
       = None
   \<and> ret_bytes (MakeRequest (apiServer 300 notFoundBody) testClient 1 ''GET'' ''/v2/companies/x'' GNil)
       = Some notFoundBody"
  by code_simp

text \<open>
  C5, amended. For every response with a status code of 400 or more whose body
  \<open>json.Unmarshal\<close> decodes into the error payload, \<open>MakeRequest\<close> returns the decoded
  \<open>Error\<close> (code, message and details as decoded from the body) and no response bytes.
\<close>

theorem MakeRequest_structured_error:
  assumes "issued (MakeRequest lib c ctx method path body) = [req]"
    and "client_Do lib (httpClient c) req = Inr resp"
    and "RespBody resp = Inr responseBody"
    and "StatusCode resp \<ge> 400"
    and "json_Unmarshal_Error lib responseBody = Inr apiErr"
  shows "ret_err (MakeRequest lib c ctx method path body) = Some (APIError apiErr)
         \<and> ret_bytes (MakeRequest lib c ctx method path body) = None"
  using assms(3-5)
  by (simp add: MakeRequest_response_of_issued[OF assms(1,2)] readResponse_def)

text \<open>A 404 with the body \<open>{"code":"not_found","message":"Company not found"}\<close>.\<close>

theorem MakeRequest_structured_error_witness:
  "ret_err (MakeRequest (apiServer 404 notFoundBody) testClient 1 ''GET'' ''/v2/companies/x'' GNil)
     = Some (APIError \<lparr>Code = ''not_found'', Message = ''Company not found'', Details = []\<rparr>)
   \<and> ret_bytes (MakeRequest (apiServer 404 notFoundBody) testClient 1 ''GET'' ''/v2/companies/x'' GNil)
     = None"
proof -
  let ?M = "MakeRequest (apiServer 404 notFoundBody) testClient 1 ''GET'' ''/v2/companies/x'' GNil"
  have "length (issued ?M) = 1" by code_simp
  then have i: "issued ?M = [hd (issued ?M)]" by (cases "issued ?M") auto
  have d: "client_Do (apiServer 404 notFoundBody) (httpClient testClient) (hd (issued ?M))
             = Inr \<lparr>StatusCode = 404, RespBody = Inr notFoundBody\<rparr>"
    by (simp add: apiServer_def stdlib_def)
  have u: "json_Unmarshal_Error (apiServer 404 notFoundBody) notFoundBody
             = Inr \<lparr>Code = ''not_found'', Message = ''Company not found'', Details = []\<rparr>"
    by code_simp
  show ?thesis
    using MakeRequest_structured_error[OF i d _ _ u] by simp
qed

subsection \<open>C6: an error response with a malformed body gives a generic error\<close>

text \<open>
  As stated, for every status code outside 200 to 299, C6 fails between 300 and 399 for the
  same reason: a response with status 300 and a body that is not JSON is returned as a
  success.
\<close>

theorem MakeRequest_generic_error_counterexample:
  "(300::int) \<notin> {200..299}
   \<and> json_Unmarshal_Error (apiServer 300 badGatewayBody) badGatewayBody = Inl ''json: syntax error''
   \<and> ret_err (MakeRequest (apiServer 300 badGatewayBody) testClient 1 ''GET'' ''/v2/companies/x'' GNil)
       = None
   \<and> ret_bytes (MakeRequest (apiServer 300 badGatewayBody) testClient 1 ''GET'' ''/v2/companies/x'' GNil)
       = Some badGatewayBody"
  by code_simp

text \<open>
  C6, amended. For every response with a status code of 400 or more whose body fails to
  decode as the error payload, \<open>MakeRequest\<close> returns no bytes and a generic error whose
  message is \<open>HTTP\<close>, the status code in decimal, a colon and the raw body.
\<close>

theorem MakeRequest_generic_error:
  assumes "issued (MakeRequest lib c ctx method path body) = [req]"
    and "client_Do lib (httpClient c) req = Inr resp"
    and "RespBody resp = Inr responseBody"
    and "StatusCode resp \<ge> 400"
    and "json_Unmarshal_Error lib responseBody = Inl e"
  shows "ret_err (MakeRequest lib c ctx method path body)
           = Some (Errorf (''HTTP '' @ Sprintf_d (StatusCode resp) @ '': '' @ responseBody))
         \<and> ret_bytes (MakeRequest lib c ctx method path body) = None"
  using assms(3-5)
  by (simp add: MakeRequest_response_of_issued[OF assms(1,2)] readResponse_def)

text \<open>A 502 with an HTML body.\<close>

theorem MakeRequest_generic_error_witness:
  "ret_err (MakeRequest (apiServer 502 badGatewayBody) testClient 1 ''GET'' ''/v2/companies/x'' GNil)
     = Some (Errorf ''HTTP 502: <html>502 Bad Gateway</html>'')
   \<and> ret_bytes (MakeRequest (apiServer 502 badGatewayBody) testClient 1 ''GET'' ''/v2/companies/x'' GNil)
     = None"
proof -
  let ?M = "MakeRequest (apiServer 502 badGatewayBody) testClient 1 ''GET'' ''/v2/companies/x'' GNil"
  have "length (issued ?M) = 1" by code_simp
  then have i: "issued ?M = [hd (issued ?M)]" by (cases "issued ?M") auto
  have d: "client_Do (apiServer 502 badGatewayBody) (httpClient testClient) (hd (issued ?M))
             = Inr \<lparr>StatusCode = 502, RespBody = Inr badGatewayBody\<rparr>"
    by (simp add: apiServer_def stdlib_def)
  have u: "json_Unmarshal_Error (apiServer 502 badGatewayBody) badGatewayBody
             = Inl ''json: syntax error''"
    by code_simp
  have s: "''HTTP '' @ Sprintf_d 502 @ '': '' @ badGatewayBody = ''HTTP 502: <html>502 Bad Gateway</html>''"
    by code_simp
  show ?thesis
    using MakeRequest_generic_error[OF i d _ _ u] s by simp
qed

subsection \<open>C7: the headers of every request\<close>

text \<open>
  C7. Every request that \<open>MakeRequest\<close> hands to the transport carries the header
  \<open>Authorization\<close> with the value \<open>Basic\<close>, a space and the API key of the client, and
  carries the header \<open>Tca-Visitor-Id\<close> if and only if the visitor identifier of the client
  is not empty (its value is then that identifier).
\<close>

theorem MakeRequest_headers:
  "\<forall>req\<in>set (issued (MakeRequest lib c ctx method path body)).
     Header req ''Authorization'' = Some [''Basic '' @ apiKey c]
     \<and> (Header req ''Tca-Visitor-Id'' \<noteq> None \<longleftrightarrow> visitorID c \<noteq> [])
     \<and> (visitorID c \<noteq> [] \<longrightarrow> Header req ''Tca-Visitor-Id'' = Some [visitorID c])"
proof (cases rule: MakeRequest_cases[of lib body c ctx "method" "path"])
  case (marshal e)
  then show ?thesis by simp
next
  case (create reqBody e)
  then show ?thesis by simp
next
  case (transport reqBody req0 e)
  then show ?thesis
    using setHeaders_Header[OF NewRequest_Header[OF transport(2)], of c body] by simp
next
  case (response reqBody req0 resp)
  then show ?thesis
    using setHeaders_Header[OF NewRequest_Header[OF response(2)], of c body] by simp
qed

text \<open>A client with a visitor identifier and one without; each issues one request.\<close>

theorem MakeRequest_headers_witness:
  "length (issued (MakeRequest (apiServer 200 ''{}'') visitorClient 1 ''GET'' ''/v2/user'' GNil)) = 1
   \<and> Header (hd (issued (MakeRequest (apiServer 200 ''{}'') visitorClient 1 ''GET'' ''/v2/user'' GNil)))
        ''Authorization'' = Some [''Basic test-api-key'']
   \<and> Header (hd (issued (MakeRequest (apiServer 200 ''{}'') visitorClient 1 ''GET'' ''/v2/user'' GNil)))
        ''Tca-Visitor-Id'' = Some [''test-visitor-123'']
   \<and> length (issued (MakeRequest (apiServer 200 ''{}'') testClient 1 ''GET'' ''/v2/user'' GNil)) = 1
   \<and> Header (hd (issued (MakeRequest (apiServer 200 ''{}'') testClient 1 ''GET'' ''/v2/user'' GNil)))
        ''Authorization'' = Some [''Basic test-api-key'']
   \<and> Header (hd (issued (MakeRequest (apiServer 200 ''{}'') testClient 1 ''GET'' ''/v2/user'' GNil)))
        ''Tca-Visitor-Id'' = None"
proof -
  let ?V = "MakeRequest (apiServer 200 ''{}'') visitorClient 1 ''GET'' ''/v2/user'' GNil"
  let ?T = "MakeRequest (apiServer 200 ''{}'') testClient 1 ''GET'' ''/v2/user'' GNil"
  have l: "length (issued ?V) = 1" "length (issued ?T) = 1"
    by code_simp+
  have h: "hd (issued ?V) \<in> set (issued ?V)" "hd (issued ?T) \<in> set (issued ?T)"
    using l by (simp_all add: hd_single)
  have k: "apiKey visitorClient = ''test-api-key''" "visitorID visitorClient = ''test-visitor-123''"
    "apiKey testClient = ''test-api-key''" "visitorID testClient = []"
    by code_simp+
  show ?thesis
    using MakeRequest_headers[of "apiServer 200 ''{}''" visitorClient 1 "''GET''" "''/v2/user''" GNil]
      MakeRequest_headers[of "apiServer 200 ''{}''" testClient 1 "''GET''" "''/v2/user''" GNil] l h k
    by auto
qed

subsection \<open>C8: no operation changes the client\<close>

text \<open>
  C8. For every client (so for every client that \<open>NewBaseClient\<close> returns) and every call
  of \<open>BuildQueryString\<close>, \<open>MakeRequest\<close>, \<open>MakeRequestWithQuery\<close>, \<open>BaseURL\<close> or
  \<open>HTTPClient\<close>, the client after the call equals the client before it, in all its fields
  and so in \<open>baseURL\<close>, \<open>apiKey\<close> and \<open>visitorID\<close>.
\<close>

theorem client_unchanged:
  "snd (BuildQueryString lib c ps) = c
   \<and> receiver (MakeRequest lib c ctx method path body) = c
   \<and> receiver (MakeRequestWithQuery lib c ctx method path ps body) = c
   \<and> snd (BaseURL c) = c
   \<and> snd (HTTPClient c) = c"
  by (simp add: BuildQueryString_snd MakeRequest_receiver MakeRequestWithQuery_receiver
      BaseURL_def HTTPClient_def)

subsection \<open>C9: at most one transport attempt\<close>

text \<open>
  C9. A call of \<open>MakeRequest\<close> hands at most one request to the transport. When marshaling
  the body fails, or when the request cannot be constructed, it returns the error and no
  request was issued. When the one request was issued and the transport fails, or the
  response has a status of 400 or more, the error is returned after that single request.
\<close>

theorem MakeRequest_single_attempt:
  "length (issued (MakeRequest lib c ctx method path body)) \<le> 1
   \<and> (\<forall>e. body \<noteq> GNil \<and> json_Marshal lib body = Inl e \<longrightarrow>
        issued (MakeRequest lib c ctx method path body) = []
        \<and> ret_bytes (MakeRequest lib c ctx method path body) = None
        \<and> ret_err (MakeRequest lib c ctx method path body)
            = Some (Errorf (''failed to marshal request body: '' @ e)))
   \<and> (\<forall>e. \<not> (body \<noteq> GNil \<and> isl (json_Marshal lib body))
        \<and> NewRequest_err lib ctx method (baseURL c @ path) = Some e \<longrightarrow>
        issued (MakeRequest lib c ctx method path body) = []
        \<and> ret_bytes (MakeRequest lib c ctx method path body) = None
        \<and> ret_err (MakeRequest lib c ctx method path body)
            = Some (Errorf (''failed to create request: '' @ e)))
   \<and> (\<forall>req e. issued (MakeRequest lib c ctx method path body) = [req]
        \<and> client_Do lib (httpClient c) req = Inl e \<longrightarrow>
        ret_bytes (MakeRequest lib c ctx method path body) = None
        \<and> ret_err (MakeRequest lib c ctx method path body)
            = Some (Errorf (''failed to execute request: '' @ e)))
   \<and> (\<forall>req resp. issued (MakeRequest lib c ctx method path body) = [req]
        \<and> client_Do lib (httpClient c) req = Inr resp \<and> StatusCode resp \<ge> 400 \<longrightarrow>
        ret_bytes (MakeRequest lib c ctx method path body) = None
        \<and> ret_err (MakeRequest lib c ctx method path body) \<noteq> None)"
proof (cases rule: MakeRequest_cases[of lib body c ctx "method" "path"])
  case (marshal e)
  then show ?thesis
    by (simp add: marshalBody_Inl_iff)
next
  case (create reqBody e)
  have "\<And>e'. \<not> (body \<noteq> GNil \<and> json_Marshal lib body = Inl e')"
    using create(1) marshalBody_Inl_iff[of lib body] by auto
  then show ?thesis
    using create by (simp add: NewRequest_Inl_iff)
next
  case (transport reqBody req0 e)
  have "\<And>e'. \<not> (body \<noteq> GNil \<and> json_Marshal lib body = Inl e')"
    using transport(1) marshalBody_Inl_iff[of lib body] by auto
  moreover have "\<And>e'. NewRequest_err lib ctx method (baseURL c @ path) \<noteq> Some e'"
    using transport(2) NewRequest_Inl_iff[of lib ctx "method" "baseURL c @ path" reqBody] by auto
  ultimately show ?thesis
    using transport by simp
next
  case (response reqBody req0 resp)
  have "\<And>e'. \<not> (body \<noteq> GNil \<and> json_Marshal lib body = Inl e')"
    using response(1) marshalBody_Inl_iff[of lib body] by auto
  moreover have "\<And>e'. NewRequest_err lib ctx method (baseURL c @ path) \<noteq> Some e'"
    using response(2) NewRequest_Inl_iff[of lib ctx "method" "baseURL c @ path" reqBody] by auto
  ultimately show ?thesis
    using response readResponse_error[of resp lib c "setHeaders c body req0"] by simp
qed

text \<open>A body that cannot be marshaled, a nil context, and a refused connection.\<close>

theorem MakeRequest_single_attempt_witness:
  "issued (MakeRequest offline testClient 1 ''POST'' ''/v2/actions'' (GSlice [GChan 0])) = []
   \<and> ret_err (MakeRequest offline testClient 1 ''POST'' ''/v2/actions'' (GSlice [GChan 0]))
       = Some (Errorf ''failed to marshal request body: json: unsupported type'')
   \<and> issued (MakeRequest offline testClient 0 ''GET'' ''/v2/user'' GNil) = []
   \<and> ret_err (MakeRequest offline testClient 0 ''GET'' ''/v2/user'' GNil)
       = Some (Errorf ''failed to create request: net/http: nil Context'')
   \<and> length (issued (MakeRequest offline testClient 1 ''GET'' ''/v2/user'' GNil)) = 1
   \<and> ret_err (MakeRequest offline testClient 1 ''GET'' ''/v2/user'' GNil)
       = Some (Errorf ''failed to execute request: dial tcp: connection refused'')"
proof -
  have m: "GSlice [GChan 0] \<noteq> GNil \<and> json_Marshal offline (GSlice [GChan 0]) = Inl ''json: unsupported type''"
    by code_simp
  have n: "\<not> (GNil \<noteq> GNil \<and> isl (json_Marshal offline GNil))
           \<and> NewRequest_err offline 0 ''GET'' (baseURL testClient @ ''/v2/user'')
               = Some ''net/http: nil Context''"
    by code_simp
  let ?M = "MakeRequest offline testClient 1 ''GET'' ''/v2/user'' GNil"
  have l: "length (issued ?M) = 1" by code_simp
  then have i: "issued ?M = [hd (issued ?M)]" by (cases "issued ?M") auto
  have d: "client_Do offline (httpClient testClient) (hd (issued ?M))
             = Inl ''dial tcp: connection refused''"
    by (simp add: offline_def stdlib_def)
  have 1: "issued (MakeRequest offline testClient 1 ''POST'' ''/v2/actions'' (GSlice [GChan 0])) = []
     \<and> ret_err (MakeRequest offline testClient 1 ''POST'' ''/v2/actions'' (GSlice [GChan 0]))
         = Some (Errorf (''failed to marshal request body: '' @ ''json: unsupported type''))"
    using MakeRequest_single_attempt[of offline testClient 1 "''POST''" "''/v2/actions''" "GSlice [GChan 0]"] m
    by blast
  have 2: "issued (MakeRequest offline testClient 0 ''GET'' ''/v2/user'' GNil) = []
     \<and> ret_err (MakeRequest offline testClient 0 ''GET'' ''/v2/user'' GNil)
         = Some (Errorf (''failed to create request: '' @ ''net/http: nil Context''))"
    using MakeRequest_single_attempt[of offline testClient 0 "''GET''" "''/v2/user''" GNil] n
    by blast
  have 3: "ret_err ?M = Some (Errorf (''failed to execute request: '' @ ''dial tcp: connection refused''))"
    using MakeRequest_single_attempt[of offline testClient 1 "''GET''" "''/v2/user''" GNil] i d
    by blast
  show ?thesis using 1 2 3 l by simp
qed

subsection \<open>C10: the path of \<open>MakeRequestWithQuery\<close>\<close>

text \<open>
  C10. \<open>MakeRequestWithQuery\<close> is \<open>MakeRequest\<close> on a path that is the given path when
  the mapping is empty or serializes to the empty string, and otherwise the given path,
  then \<open>&\<close> if the path contains a \<open>?\<close> and \<open>?\<close> if not, then the serialized query
  string.
\<close>

theorem MakeRequestWithQuery_path:
  "MakeRequestWithQuery lib c ctx method path queryParams body =
     MakeRequest lib c ctx method
       (if queryParams = [] \<or> fst (BuildQueryString lib c queryParams) = [] then path
        else path @ (if CHR ''?'' \<in> set path then ''&'' else ''?'')
               @ fst (BuildQueryString lib c queryParams))
       body"
  by (simp add: MakeRequestWithQuery_def queryPath_eq)

text \<open>A path with a query, a path without, a mapping of absent values, an empty mapping.\<close>

theorem MakeRequestWithQuery_path_witness:
  "MakeRequestWithQuery offline testClient 1 ''GET'' ''/v2/companies?search=test'' [(''page'', GInt 2)] GNil
     = MakeRequest offline testClient 1 ''GET'' ''/v2/companies?search=test&page=2'' GNil
   \<and> MakeRequestWithQuery offline testClient 1 ''GET'' ''/v2/companies'' [(''page'', GInt 2)] GNil
     = MakeRequest offline testClient 1 ''GET'' ''/v2/companies?page=2'' GNil
   \<and> MakeRequestWithQuery offline testClient 1 ''GET'' ''/v2/companies'' [(''page'', GNil)] GNil
     = MakeRequest offline testClient 1 ''GET'' ''/v2/companies'' GNil
   \<and> MakeRequestWithQuery offline testClient 1 ''GET'' ''/v2/companies'' [] GNil
     = MakeRequest offline testClient 1 ''GET'' ''/v2/companies'' GNil"
proof -
  have q: "fst (BuildQueryString offline testClient [(''page'', GInt 2)]) = ''page=2''"
    "fst (BuildQueryString offline testClient [(''page'', GNil)]) = []"
    by code_simp+
  show ?thesis
    using MakeRequestWithQuery_path[of offline testClient 1 "''GET''" "''/v2/companies?search=test''" "[(''page'', GInt 2)]" GNil]
      MakeRequestWithQuery_path[of offline testClient 1 "''GET''" "''/v2/companies''" "[(''page'', GInt 2)]" GNil]
      MakeRequestWithQuery_path[of offline testClient 1 "''GET''" "''/v2/companies''" "[(''page'', GNil)]" GNil]
      MakeRequestWithQuery_path[of offline testClient 1 "''GET''" "''/v2/companies''" "[]" GNil]
    by (simp add: q)
qed

end
